theory Spec2Isabelle
  imports Main "HOL-Library.Word"
begin

unbundle bit_operations_syntax

section \<open>Data model of eeprom-93cxx.c\<close>

text \<open>
  The C integer types are modelled as machine words: \<open>uint8_t\<close> as \<open>8 word\<close>,
  \<open>uint16_t\<close> as \<open>16 word\<close>, and the \<open>int\<close> to which C promotes the operands of
  \<open><<\<close>, \<open>|\<close> and \<open>&\<close> as \<open>32 word\<close>. Loop counters and buffer lengths, which
  never leave the range of their C type here, are \<open>nat\<close>; return codes are \<open>int\<close>.
\<close>

type_synonym u8 = "8 word"
type_synonym u16 = "16 word"
type_synonym c_int = "32 word"

definition OPCODE_READ :: u8 where "OPCODE_READ = 0x2"
definition OPCODE_WRITE :: u8 where "OPCODE_WRITE = 0x1"
definition OPCODE_EWEN :: u8 where "OPCODE_EWEN = 0x0"
definition SUBCODE_EWEN :: u8 where "SUBCODE_EWEN = 3"
definition SUBCODE_ERAL :: u8 where "SUBCODE_ERAL = 2"
definition SUBCODE_EWDS :: u8 where "SUBCODE_EWDS = 0"

definition EXIT_SUCCESS :: int where "EXIT_SUCCESS = 0"
definition EXIT_FAILURE :: int where "EXIT_FAILURE = 1"

datatype eeprom_action = NONE | EEPROM_READ | EEPROM_ERASE | EEPROM_WRITE

definition EEPROM_X8 :: u8 where "EEPROM_X8 = 0x01"
definition EEPROM_X16 :: u8 where "EEPROM_X16 = 0x02"
definition EEPROM_ORG :: u8 where "EEPROM_ORG = EEPROM_X8 OR EEPROM_X16"

text \<open>\<open>struct eeprom\<close>; the field \<open>size\<close> is named \<open>size_bytes\<close> here.\<close>

record eeprom =
  name :: string
  spi_fd :: int
  size_bytes :: u16
  addr_bits :: u8
  flags :: u8
  is_x16 :: bool

record eeprom_cfg =
  filename :: string
  spidev :: string
  eeprom :: eeprom
  action :: eeprom_action
  burst_read :: bool

text \<open>
  \<open>eeprom_types_list\<close>, with the fields the initialisers leave out zeroed and the
  terminating entry of size 0 kept.
\<close>

definition eeprom_types_list :: "eeprom list" where
  "eeprom_types_list =
    [\<lparr>name = ''93c66'', spi_fd = 0, size_bytes = 512, addr_bits = 9, flags = EEPROM_ORG, is_x16 = False\<rparr>,
     \<lparr>name = ''93c56'', spi_fd = 0, size_bytes = 256, addr_bits = 8, flags = EEPROM_ORG, is_x16 = False\<rparr>,
     \<lparr>name = ''93c46'', spi_fd = 0, size_bytes = 128, addr_bits = 7, flags = EEPROM_ORG, is_x16 = False\<rparr>,
     \<lparr>name = ''93c06'', spi_fd = 0, size_bytes = 32, addr_bits = 6, flags = EEPROM_X16, is_x16 = False\<rparr>,
     \<lparr>name = [], spi_fd = 0, size_bytes = 0, addr_bits = 0, flags = 0, is_x16 = False\<rparr>]"

text \<open>
  \<open>strcasecmp(a, b) == 0\<close>: equality after \<open>tolower\<close> on every character (the C
  locale: only \<open>A\<close> to \<open>Z\<close> change).
\<close>

definition c_tolower :: "char \<Rightarrow> char" where
  "c_tolower c =
    (let n = (of_char c :: nat) in if 65 \<le> n \<and> n \<le> 90 then char_of (n + 32) else c)"

definition strcasecmp_is0 :: "string \<Rightarrow> string \<Rightarrow> bool" where
  "strcasecmp_is0 a b = (map c_tolower a = map c_tolower b)"

text \<open>
  \<open>eeprom_find\<close>: the \<open>while (eeprom->size)\<close> walk over the table, stopping at the
  entry of size 0.
\<close>

fun eeprom_find_from :: "eeprom list \<Rightarrow> string \<Rightarrow> eeprom option" where
  "eeprom_find_from [] ty = None"
| "eeprom_find_from (e # es) ty =
    (if size_bytes e = 0 then None
     else if strcasecmp_is0 (name e) ty then Some e
     else eeprom_find_from es ty)"

definition eeprom_find :: "string \<Rightarrow> eeprom option" where
  "eeprom_find ty = eeprom_find_from eeprom_types_list ty"

subsection \<open>Option processing and profile finalisation in \<open>main\<close>\<close>

text \<open>
  What \<open>getopt_long\<close> hands to the \<open>switch\<close>, one value per loop round:
  an option with its argument (for \<open>-b\<close> and \<open>-s\<close> the \<open>int\<close> that \<open>atoi\<close> made of
  it), one of the two flags that \<open>getopt_long\<close> sets itself (return value 0), or an
  option the \<open>switch\<close> sends to \<open>default\<close>.
\<close>

datatype opt =
  Opt_t string | Opt_D string | Opt_b int | Opt_s int | Opt_r string | Opt_w string
| Opt_e | Opt_h | Flag_x16 | Flag_burst | Opt_other

text \<open>The local variables of \<open>main\<close>.\<close>

record main_vars =
  eeprom_type :: "string option"
  x16 :: bool
  burst :: bool
  parameter_specified :: bool
  type_specified :: bool
  config :: eeprom_cfg

definition main_init :: main_vars where
  "main_init =
    \<lparr>eeprom_type = None, x16 = False, burst = False,
     parameter_specified = False, type_specified = False,
     config = \<lparr>filename = [], spidev = ''/dev/spidev1.0'',
       eeprom = \<lparr>name = ''custom'', spi_fd = 0, size_bytes = 256, addr_bits = 8,
         flags = EEPROM_ORG, is_x16 = False\<rparr>,
       action = NONE, burst_read = False\<rparr>\<rparr>"

text \<open>
  The \<open>while (1)\<close> loop around \<open>getopt_long\<close>: \<open>Inl\<close> is the exit status of an
  \<open>exit\<close> inside the loop, \<open>Inr\<close> the variables when the options are used up.
\<close>

fun getopt_loop :: "opt list \<Rightarrow> main_vars \<Rightarrow> int + main_vars" where
  "getopt_loop [] v = Inr v"
| "getopt_loop (Flag_x16 # os) v = getopt_loop os (v\<lparr>x16 := True\<rparr>)"
| "getopt_loop (Flag_burst # os) v = getopt_loop os (v\<lparr>burst := True\<rparr>)"
| "getopt_loop (Opt_t s # os) v =
    getopt_loop os (v\<lparr>eeprom_type := Some s, type_specified := True\<rparr>)"
| "getopt_loop (Opt_D s # os) v =
    getopt_loop os (v\<lparr>config := (config v)\<lparr>spidev := s\<rparr>\<rparr>)"
| "getopt_loop (Opt_b n # os) v =
    getopt_loop os (v\<lparr>config := (config v)\<lparr>eeprom := (eeprom (config v))\<lparr>addr_bits := word_of_int n\<rparr>\<rparr>,
      parameter_specified := True\<rparr>)"
| "getopt_loop (Opt_s n # os) v =
    getopt_loop os (v\<lparr>config := (config v)\<lparr>eeprom := (eeprom (config v))\<lparr>size_bytes := word_of_int n\<rparr>\<rparr>,
      parameter_specified := True\<rparr>)"
| "getopt_loop (Opt_r s # os) v =
    getopt_loop os (v\<lparr>config := (config v)\<lparr>filename := s, action := EEPROM_READ\<rparr>\<rparr>)"
| "getopt_loop (Opt_w s # os) v =
    getopt_loop os (v\<lparr>config := (config v)\<lparr>filename := s, action := EEPROM_WRITE\<rparr>\<rparr>)"
| "getopt_loop (Opt_e # os) v =
    getopt_loop os (v\<lparr>config := (config v)\<lparr>action := EEPROM_ERASE\<rparr>\<rparr>)"
| "getopt_loop (Opt_h # os) v = Inl EXIT_SUCCESS"
| "getopt_loop (Opt_other # os) v = Inl EXIT_FAILURE"

text \<open>
  \<open>main\<close> from the loop to the call of \<open>sanitize_input\<close> (lines 205 to 228): the
  profile that every later command header is built from. \<open>Inl\<close> is an exit status.
\<close>

definition main_profile :: "opt list \<Rightarrow> int + eeprom_cfg" where
  "main_profile opts =
    (case getopt_loop opts main_init of
       Inl status \<Rightarrow> Inl status
     | Inr v \<Rightarrow>
        (let cfg = (config v)\<lparr>eeprom := (eeprom (config v))\<lparr>is_x16 := x16 v\<rparr>,
                              burst_read := burst v\<rparr>
         in if type_specified v \<and> parameter_specified v then Inl EXIT_FAILURE
            else if type_specified v then
              (case eeprom_find (case eeprom_type v of Some s \<Rightarrow> s | None \<Rightarrow> []) of
                 None \<Rightarrow> Inl EXIT_FAILURE
               | Some eepromy \<Rightarrow>
                   Inr (cfg\<lparr>eeprom := eepromy\<lparr>is_x16 := x16 v,
                     addr_bits := (if x16 v then addr_bits eepromy - 1 else addr_bits eepromy)\<rparr>\<rparr>))
            else Inr cfg))"

text \<open>
  \<open>sanitize_input\<close>: \<open>Some (-1)\<close> for each \<open>return -1\<close>. The function has no
  \<open>return\<close> after its last check, so a profile that passes every check ends it
  without a return value: \<open>None\<close>.
\<close>

definition sanitize_input :: "eeprom_cfg \<Rightarrow> int option" where
  "sanitize_input cfg =
    (let e = eeprom cfg in
     if size_bytes e = 0 then Some (- 1)
     else if (ucast (size_bytes e) :: c_int) AND (ucast (size_bytes e) - 1) \<noteq> 0 then Some (- 1)
     else if addr_bits e < 5 \<or> addr_bits e > 9 then Some (- 1)
     else if is_x16 e \<and> flags e AND EEPROM_X16 = 0 then Some (- 1)
     else if \<not> is_x16 e \<and> flags e AND EEPROM_X8 = 0 then Some (- 1)
     else None)"

section \<open>Command headers and bus transactions\<close>

text \<open>
  \<open>struct spi_ioc_transfer\<close>, by the fields the program sets. \<open>tx_buf\<close> is \<open>None\<close>
  for a null pointer and otherwise holds the \<open>len\<close> bytes that will be sent;
  \<open>rx_buf\<close> says whether a receive buffer is given.
\<close>

record spi_ioc_transfer =
  tx_buf :: "u8 list option"
  rx_buf :: bool
  len :: nat
  speed_hz :: nat
  bits_per_word :: nat

text \<open>\<open>memset(xfer, 0, sizeof( *xfer))\<close> and the initialiser \<open>{0}\<close>.\<close>

definition xfer_zero :: spi_ioc_transfer where
  "xfer_zero = \<lparr>tx_buf = None, rx_buf = False, len = 0, speed_hz = 0, bits_per_word = 0\<rparr>"

text \<open>
  \<open>prepare_cmd\<close>. \<open>bits\<close> and \<open>command\<close> are \<open>uint16_t\<close>, \<open>cmd\<close> is \<open>uint8_t\<close>; the
  shifts and the mask are computed in \<open>int\<close> and cut to 16 bits by the assignments.
  (C leaves a shift by 31 or more undefined; \<open>sanitize_input\<close> keeps \<open>bits\<close> at 10 or
  less.) The result is the transfer with the two bytes of \<open>txbuf\<close> it points to.
\<close>

definition prepare_cmd :: "eeprom \<Rightarrow> u8 \<Rightarrow> u16 \<Rightarrow> u8 \<Rightarrow> spi_ioc_transfer" where
  "prepare_cmd e cmd addr dummy_bits =
    (let bits = (ucast (addr_bits e) + ucast dummy_bits :: u16);
         cmd1 = cmd OR push_bit 2 1;
         addr1 = (ucast ((ucast addr :: c_int) AND (push_bit (unat bits) 1 - 1)) :: u16);
         command = (ucast (push_bit (unat bits) (ucast cmd1 :: c_int) OR ucast addr1) :: u16);
         txbuf = [ucast (drop_bit 8 command) :: u8, ucast command]
     in xfer_zero\<lparr>tx_buf := Some txbuf, bits_per_word := 8, len := 2\<rparr>)"

text \<open>
  The bus: \<open>ioctl(fd, SPI_IOC_MESSAGE(n), xfer)\<close> on the spidev device. It gets the
  chained transfers and gives the return code of \<open>ioctl\<close> (negative on failure), the
  bytes it stored in the receive buffer, and the state of the bus and of the chip
  behind it afterwards.
\<close>

type_synonym 's spi_bus = "'s \<Rightarrow> spi_ioc_transfer list \<Rightarrow> int \<times> u8 list \<times> 's"

definition read_data_msg :: "eeprom \<Rightarrow> nat \<Rightarrow> u16 \<Rightarrow> spi_ioc_transfer list" where
  "read_data_msg e n addr =
    [(prepare_cmd e OPCODE_READ addr 1)\<lparr>speed_hz := 100000\<rparr>,
     xfer_zero\<lparr>rx_buf := True, len := n, bits_per_word := 8, speed_hz := 100000\<rparr>]"

text \<open>\<open>read_data\<close>: the return code, the bytes received into \<open>data\<close>, the bus.\<close>

definition read_data :: "'s spi_bus \<Rightarrow> eeprom \<Rightarrow> nat \<Rightarrow> u16 \<Rightarrow> 's \<Rightarrow> int \<times> u8 list \<times> 's" where
  "read_data io e n addr s = io s (read_data_msg e n addr)"

definition read_status_msg :: "spi_ioc_transfer list" where
  "read_status_msg = [xfer_zero\<lparr>rx_buf := True, len := 1, bits_per_word := 8, speed_hz := 100000\<rparr>]"

text \<open>
  \<open>read_status\<close>: \<open>status\<close> starts as 0 and is the receive buffer; the return code of
  \<open>ioctl\<close> is not looked at.
\<close>

definition read_status :: "'s spi_bus \<Rightarrow> eeprom \<Rightarrow> 's \<Rightarrow> u8 \<times> 's" where
  "read_status io e s =
    (case io s read_status_msg of
       (ret, rx, s') \<Rightarrow> ((case rx of [] \<Rightarrow> 0 | b # bs \<Rightarrow> b), s'))"

definition write_data_msg :: "eeprom \<Rightarrow> u16 \<Rightarrow> u8 list \<Rightarrow> spi_ioc_transfer list" where
  "write_data_msg e addr data =
    [(prepare_cmd e OPCODE_WRITE addr 0)\<lparr>speed_hz := 100000\<rparr>,
     xfer_zero\<lparr>tx_buf := Some data, len := length data, bits_per_word := 8, speed_hz := 100000\<rparr>]"

text \<open>\<open>write_data\<close>; \<open>data\<close> is the \<open>len\<close> bytes at the pointer.\<close>

definition write_data :: "'s spi_bus \<Rightarrow> eeprom \<Rightarrow> u16 \<Rightarrow> u8 list \<Rightarrow> 's \<Rightarrow> int \<times> 's" where
  "write_data io e addr data s =
    (case io s (write_data_msg e addr data) of (ret, rx, s') \<Rightarrow> (ret, s'))"

text \<open>
  \<open>send_command\<close>: \<open>subcode = subop << (addr_bits - 2)\<close>, computed in \<open>int\<close> and cut
  to \<open>uint16_t\<close>. (For \<open>addr_bits < 2\<close> the C shift count is negative and the result
  undefined; the model shifts by 0 there. \<open>sanitize_input\<close> rejects such profiles.)
\<close>

definition send_command_msg :: "eeprom \<Rightarrow> u8 \<Rightarrow> u8 \<Rightarrow> spi_ioc_transfer list" where
  "send_command_msg e op subop =
    (let subcode = (ucast (push_bit (unat (addr_bits e) - 2) (ucast subop :: c_int)) :: u16)
     in [(prepare_cmd e op subcode 0)\<lparr>speed_hz := 100000\<rparr>])"

definition send_command :: "'s spi_bus \<Rightarrow> eeprom \<Rightarrow> u8 \<Rightarrow> u8 \<Rightarrow> 's \<Rightarrow> int \<times> 's" where
  "send_command io e op subop s =
    (case io s (send_command_msg e op subop) of (ret, rx, s') \<Rightarrow> (ret, s'))"

definition enable_write :: "'s spi_bus \<Rightarrow> eeprom \<Rightarrow> 's \<Rightarrow> int \<times> 's" where
  "enable_write io e s = send_command io e OPCODE_EWEN SUBCODE_EWEN s"

definition diable_write :: "'s spi_bus \<Rightarrow> eeprom \<Rightarrow> 's \<Rightarrow> int \<times> 's" where
  "diable_write io e s = send_command io e OPCODE_EWEN SUBCODE_EWDS s"

definition erase_all :: "'s spi_bus \<Rightarrow> eeprom \<Rightarrow> 's \<Rightarrow> int \<times> 's" where
  "erase_all io e s = send_command io e OPCODE_EWEN SUBCODE_ERAL s"

text \<open>The big-endian value of a two-byte header.\<close>

definition be16 :: "u8 list \<Rightarrow> nat" where
  "be16 bs = 256 * unat (bs ! 0) + unat (bs ! 1)"

section \<open>The read, write and erase operations\<close>

text \<open>
  A transfer that would run past the end of a buffer is undefined in C; the model
  stops with a fault there instead of reading or writing beyond the buffer.
\<close>

datatype fault = Buffer_Overrun

text \<open>The \<open>step\<close> of \<open>eeprom_read\<close>.\<close>

definition read_step :: "eeprom_cfg \<Rightarrow> nat" where
  "read_step cfg =
    (if burst_read cfg then unat (size_bytes (eeprom cfg))
     else if is_x16 (eeprom cfg) then 2 else 1)"

text \<open>The bytes \<open>bs\<close> received at \<open>buf + i\<close>.\<close>

definition store_at :: "u8 list \<Rightarrow> nat \<Rightarrow> u8 list \<Rightarrow> u8 list" where
  "store_at buf i bs = take i buf @ bs @ drop (i + length bs) buf"

text \<open>
  The \<open>for\<close> loop of \<open>eeprom_read\<close>, from index \<open>i\<close> with the buffer \<open>buf\<close>. The
  result is the value returned from inside the loop (\<open>None\<close> when the loop ends
  normally), the buffer and the bus.
\<close>

function read_loop ::
  "'s spi_bus \<Rightarrow> eeprom_cfg \<Rightarrow> nat \<Rightarrow> u8 list \<Rightarrow> 's \<Rightarrow> fault + (int option \<times> u8 list \<times> 's)" where
  "read_loop io cfg i buf s =
    (if i < unat (size_bytes (eeprom cfg)) then
       (if unat (size_bytes (eeprom cfg)) < i + read_step cfg then Inl Buffer_Overrun
        else
          (case read_data io (eeprom cfg) (read_step cfg) (of_nat i) s of
             (ret, rx, s') \<Rightarrow>
               if ret < 0 then Inr (Some EXIT_FAILURE, buf, s')
               else read_loop io cfg (i + read_step cfg)
                      (store_at buf i (take (read_step cfg) rx)) s'))
     else Inr (None, buf, s))"
  by pat_completeness auto
termination
  by (relation "measure (\<lambda>(io, cfg, i, buf, s). unat (size_bytes (eeprom cfg)) - i)")
     (auto simp: read_step_def split: if_splits)

declare read_loop.simps [simp del]

text \<open>
  \<open>eeprom_read\<close>. \<open>fopen_ok\<close> says whether \<open>fopen\<close> gives a file; \<open>heap\<close> is what
  the block from \<open>malloc\<close> holds before anything is stored in it. The result is the
  returned value (\<open>None\<close>: the function ends without a \<open>return\<close>), the contents of
  the output file (\<open>None\<close>: no file was opened; on a failed transfer the file was
  opened and nothing written to it), and the bus.
\<close>

definition eeprom_read ::
  "'s spi_bus \<Rightarrow> eeprom_cfg \<Rightarrow> bool \<Rightarrow> (nat \<Rightarrow> u8) \<Rightarrow> 's
     \<Rightarrow> fault + (int option \<times> u8 list option \<times> 's)" where
  "eeprom_read io cfg fopen_ok heap s =
    (if \<not> fopen_ok then Inr (Some EXIT_FAILURE, None, s)
     else
       (case read_loop io cfg 0 (map heap [0..<unat (size_bytes (eeprom cfg))]) s of
          Inl f \<Rightarrow> Inl f
        | Inr (Some r, buf, s') \<Rightarrow> Inr (Some r, Some [], s')
        | Inr (None, buf, s') \<Rightarrow> Inr (None, Some buf, s')))"

text \<open>
  The loop \<open>while (read_status(eeprom) != 0xff) ;\<close> of \<open>eeprom_program_array\<close>. It has
  no bound, so it is a partial function: \<open>None\<close> is a loop that never ends.
\<close>

partial_function (option) poll_ready :: "'s spi_bus \<Rightarrow> eeprom \<Rightarrow> 's \<Rightarrow> 's option" where
  "poll_ready io e s =
    (case read_status io e s of
       (status, s') \<Rightarrow> if status \<noteq> 0xff then poll_ready io e s' else Some s')"

declare poll_ready.simps [code]

text \<open>The \<open>step\<close> of \<open>eeprom_program_array\<close>.\<close>

definition word_step :: "eeprom \<Rightarrow> nat" where
  "word_step e = (if is_x16 e then 2 else 1)"

text \<open>
  The \<open>for\<close> loop of \<open>eeprom_program_array\<close> from index \<open>i\<close>; \<open>data\<close> is the buffer
  the pointer refers to. \<open>None\<close>: a poll loop never ended. Otherwise the value
  returned (\<open>None\<close> inside: the function ends without a \<open>return\<close>) and the bus.
\<close>

function program_loop ::
  "'s spi_bus \<Rightarrow> eeprom \<Rightarrow> u8 list \<Rightarrow> nat \<Rightarrow> 's \<Rightarrow> (fault + (int option \<times> 's)) option" where
  "program_loop io e data i s =
    (if i < unat (size_bytes e) then
       (if length data < i + word_step e then Some (Inl Buffer_Overrun)
        else
          (case write_data io e (of_nat (i div word_step e)) (take (word_step e) (drop i data)) s of
             (ret, s1) \<Rightarrow>
               if ret < 0 then Some (Inr (Some EXIT_FAILURE, s1))
               else
                 (case poll_ready io e s1 of
                    None \<Rightarrow> None
                  | Some s2 \<Rightarrow> program_loop io e data (i + word_step e) s2)))
     else Some (Inr (None, s)))"
  by pat_completeness auto
termination
  by (relation "measure (\<lambda>(io, e, data, i, s). unat (size_bytes e) - i)")
     (auto simp: word_step_def)

declare program_loop.simps [simp del]

definition eeprom_program_array ::
  "'s spi_bus \<Rightarrow> eeprom \<Rightarrow> u8 list \<Rightarrow> 's \<Rightarrow> (fault + (int option \<times> 's)) option" where
  "eeprom_program_array io e data s = program_loop io e data 0 s"

text \<open>
  \<open>eeprom_write\<close>. \<open>file\<close> is the input file: \<open>None\<close> when \<open>fopen\<close> fails, otherwise
  its bytes (\<open>fread\<close> is taken to deliver them all). The value returned by
  \<open>eeprom_program_array\<close> is dropped, and the function ends without a \<open>return\<close>.
\<close>

definition eeprom_write ::
  "'s spi_bus \<Rightarrow> eeprom_cfg \<Rightarrow> u8 list option \<Rightarrow> 's \<Rightarrow> (fault + (int option \<times> 's)) option" where
  "eeprom_write io cfg file s =
    (case file of
       None \<Rightarrow> Some (Inr (Some EXIT_FAILURE, s))
     | Some buf \<Rightarrow>
        if length buf \<noteq> unat (size_bytes (eeprom cfg)) then Some (Inr (Some EXIT_FAILURE, s))
        else
          (case enable_write io (eeprom cfg) s of
             (ret, s1) \<Rightarrow>
               if ret < 0 then Some (Inr (Some EXIT_FAILURE, s1))
               else
                 (case eeprom_program_array io (eeprom cfg) buf s1 of
                    None \<Rightarrow> None
                  | Some (Inl f) \<Rightarrow> Some (Inl f)
                  | Some (Inr (r, s2)) \<Rightarrow> Some (Inr (None, s2)))))"

text \<open>\<open>eeprom_erase\<close>.\<close>

definition eeprom_erase :: "'s spi_bus \<Rightarrow> eeprom_cfg \<Rightarrow> 's \<Rightarrow> int option \<times> 's" where
  "eeprom_erase io cfg s =
    (case enable_write io (eeprom cfg) s of
       (ret, s1) \<Rightarrow>
         if ret < 0 then (Some EXIT_FAILURE, s1)
         else
           (case erase_all io (eeprom cfg) s1 of
              (ret2, s2) \<Rightarrow> if ret2 < 0 then (Some EXIT_FAILURE, s2) else (None, s2)))"

text \<open>
  The dispatch of \<open>eeprom_run\<close> once \<open>init_spi_master\<close> has given the descriptor
  \<open>spif\<close> (negative on failure). The result is the returned value, the output file if
  one was written, and the bus.
\<close>

definition eeprom_run ::
  "'s spi_bus \<Rightarrow> eeprom_cfg \<Rightarrow> int \<Rightarrow> u8 list option \<Rightarrow> bool \<Rightarrow> (nat \<Rightarrow> u8) \<Rightarrow> 's
     \<Rightarrow> (fault + (int option \<times> u8 list option \<times> 's)) option" where
  "eeprom_run io cfg spif file fopen_ok heap s =
    (if spif < 0 then Some (Inr (Some EXIT_FAILURE, None, s))
     else
       (let cfg1 = cfg\<lparr>eeprom := (eeprom cfg)\<lparr>spi_fd := spif\<rparr>\<rparr> in
        if action cfg1 = EEPROM_READ then Some (eeprom_read io cfg1 fopen_ok heap s)
        else if action cfg1 = EEPROM_WRITE then
          (case eeprom_write io cfg1 file s of
             None \<Rightarrow> None
           | Some (Inl f) \<Rightarrow> Some (Inl f)
           | Some (Inr (r, s')) \<Rightarrow> Some (Inr (r, None, s')))
        else if action cfg1 = EEPROM_ERASE then
          (case eeprom_erase io cfg1 s of (r, s') \<Rightarrow> Some (Inr (r, None, s')))
        else Some (Inr (Some 0, None, s))))"

text \<open>
  A bus that keeps a record of every \<open>ioctl\<close>: the message, the return code and the
  bytes received, oldest first.
\<close>

type_synonym bus_event = "spi_ioc_transfer list \<times> int \<times> u8 list"

definition traced :: "'s spi_bus \<Rightarrow> ('s \<times> bus_event list) spi_bus" where
  "traced io = (\<lambda>(s, log) msg.
     case io s msg of (ret, rx, s') \<Rightarrow> (ret, rx, (s', log @ [(msg, ret, rx)])))"

section \<open>A simulated 93Cxx device\<close>

text \<open>
  Modelled from the spec: the simulated device of the round-trip and burst-read
  properties is not among the sources. It is written here from what the sources
  and the spec say of the chip: it starts to interpret a command at the first high
  bit on its data input while selected, so leading zero bits are padding (comment
  above \<open>prepare_cmd\<close>); after that start bit come the 2 opcode bits and then the
  address bits; a read needs one more clock after the address before data comes out
  (the dummy bit) and goes on through the array from the addressed word; a write
  takes one word of data and is followed by a self-timed programming cycle, during
  which a status read gives a byte other than \<open>0xFF\<close>; the two highest address bits
  of opcode 0 select write-enable (3), write-disable (0) and erase-all (2); an erased
  byte is \<open>0xFF\<close>.

  \<open>abits\<close> is the number of address bits the chip clocks in, so it has \<open>2 ^ abits\<close>
  words of 1 byte (\<open>org16 = False\<close>) or 2 bytes; \<open>mem\<close> is the array by byte index;
  \<open>wen\<close> is the write-enable latch; \<open>busy\<close> is the number of status reads that will
  still find the chip programming, and \<open>tw\<close> the number a programming cycle lasts.
\<close>

record device =
  org16 :: bool
  abits :: nat
  mem :: "nat \<Rightarrow> u8"
  wen :: bool
  busy :: nat
  tw :: nat

definition dev_wb :: "device \<Rightarrow> nat" where
  "dev_wb d = (if org16 d then 2 else 1)"

text \<open>The \<open>k\<close>-th byte of a sequential read that starts at word address \<open>a\<close>.\<close>

definition dev_byte :: "device \<Rightarrow> nat \<Rightarrow> nat \<Rightarrow> u8" where
  "dev_byte d a k = mem d (dev_wb d * ((a + k div dev_wb d) mod 2 ^ abits d) + k mod dev_wb d)"

text \<open>The position of the highest bit set: where the chip sees the start bit.\<close>

fun msb_pos :: "nat \<Rightarrow> nat" where
  "msb_pos n = (if n < 2 then 0 else Suc (msb_pos (n div 2)))"

declare msb_pos.simps [simp del]

text \<open>
  What the chip takes from a 16-bit header \<open>hv\<close>: the opcode, the address (the
  \<open>ab\<close> bits after the opcode) and the number of clocks left in the header after
  the last address bit. \<open>None\<close>: no start bit, or too few bits after it.
\<close>

definition dev_decode :: "nat \<Rightarrow> nat \<Rightarrow> (nat \<times> nat \<times> nat) option" where
  "dev_decode ab hv =
    (if hv = 0 then None
     else (let h = msb_pos hv in
       if h < ab + 2 then None
       else Some ((hv div 2 ^ (h - 2)) mod 4, (hv div 2 ^ (h - 2 - ab)) mod 2 ^ ab, h - 2 - ab)))"

text \<open>A byte on the wire, highest bit first, and back.\<close>

definition bits_msb :: "u8 \<Rightarrow> bool list" where
  "bits_msb w = rev (map (bit w) [0..<8])"

definition byte_of_bits :: "bool list \<Rightarrow> u8" where
  "byte_of_bits bs = horner_sum of_bool 2 (rev (take 8 bs))"

primrec bytes_of_bits :: "nat \<Rightarrow> bool list \<Rightarrow> u8 list" where
  "bytes_of_bits 0 bs = []"
| "bytes_of_bits (Suc n) bs = byte_of_bits bs # bytes_of_bits n (drop 8 bs)"

text \<open>
  The \<open>n\<close> bytes a read at word address \<open>a\<close> puts into the receive buffer when the
  header has \<open>dm\<close> clocks left after the address: the chip sends the dummy 0 bit and
  then the array, and the receive phase starts \<open>dm\<close> bits into that stream.
\<close>

definition dev_read_out :: "device \<Rightarrow> nat \<Rightarrow> nat \<Rightarrow> nat \<Rightarrow> u8 list" where
  "dev_read_out d a dm n =
    bytes_of_bits n (drop dm (False # concat (map (\<lambda>k. bits_msb (dev_byte d a k)) [0..<n + 2])))"

text \<open>Programming the word at address \<open>a\<close> with \<open>data\<close> starts a programming cycle.\<close>

definition dev_program :: "device \<Rightarrow> nat \<Rightarrow> u8 list \<Rightarrow> device" where
  "dev_program d a data =
    d\<lparr>mem := (\<lambda>i. if dev_wb d * a \<le> i \<and> i < dev_wb d * a + dev_wb d
                    then data ! (i - dev_wb d * a) else mem d i),
      busy := tw d\<rparr>"

definition msg_len :: "spi_ioc_transfer list \<Rightarrow> nat" where
  "msg_len msg = sum_list (map len msg)"

definition msg_rx_len :: "spi_ioc_transfer list \<Rightarrow> nat" where
  "msg_rx_len msg = sum_list (map len (filter rx_buf msg))"

text \<open>
  The device on the bus. It never fails: the return code is the number of bytes
  transferred. A message whose first transfer sends nothing keeps the data input
  low, so it is a status read. A message that starts with a 2-byte header is a
  command, ignored while the chip is programming; a write takes effect when the
  header is followed by one transfer that sends exactly one word.
\<close>

definition sim_io :: "device spi_bus" where
  "sim_io d msg =
    (let ret = int (msg_len msg); n = msg_rx_len msg in
     case msg of
       [] \<Rightarrow> (ret, [], d)
     | x # xs \<Rightarrow>
        (case tx_buf x of
           None \<Rightarrow> (ret, replicate n (if busy d = 0 then 0xFF else 0), d\<lparr>busy := busy d - 1\<rparr>)
         | Some hdr \<Rightarrow>
            if busy d \<noteq> 0 \<or> length hdr \<noteq> 2 then (ret, replicate n 0, d)
            else
              (case dev_decode (abits d) (be16 hdr) of
                 None \<Rightarrow> (ret, replicate n 0, d)
               | Some (op, a, dm) \<Rightarrow>
                  if op = 2 then (ret, dev_read_out d a dm n, d)
                  else if op = 1 then
                    (case xs of
                       [y] \<Rightarrow>
                         (case tx_buf y of
                            Some data \<Rightarrow>
                              if wen d \<and> dm = 0 \<and> length data = dev_wb d
                              then (ret, replicate n 0, dev_program d a data)
                              else (ret, replicate n 0, d)
                          | None \<Rightarrow> (ret, replicate n 0, d))
                     | _ \<Rightarrow> (ret, replicate n 0, d))
                  else if op = 0 then
                    (let sub = a div 2 ^ (abits d - 2) in
                     if sub = 3 then (ret, replicate n 0, d\<lparr>wen := True\<rparr>)
                     else if sub = 0 then (ret, replicate n 0, d\<lparr>wen := False\<rparr>)
                     else if sub = 2 \<and> wen d
                       then (ret, replicate n 0, d\<lparr>mem := (\<lambda>i. 0xFF), busy := tw d\<rparr>)
                     else (ret, replicate n 0, d))
                  else if wen d
                    then (ret, replicate n 0, dev_program d a (replicate (dev_wb d) 0xFF))
                  else (ret, replicate n 0, d))))"

text \<open>The device a profile describes: its organisation and its address width.\<close>

definition dev_matches :: "eeprom \<Rightarrow> device \<Rightarrow> bool" where
  "dev_matches e d = (org16 d = is_x16 e \<and> abits d = unat (addr_bits e))"

text \<open>A bus on which every \<open>ioctl\<close> fails with \<open>-1\<close> and nothing is received.\<close>

definition dead_bus :: "unit spi_bus" where
  "dead_bus s msg = (- 1, [], s)"

section \<open>The header encoder\<close>

lemma bits_u16: "unat (ucast (a::u8) + ucast (d::u8) :: u16) = unat a + unat d"
proof -
  have "unat a < 2 ^ 8" "unat d < 2 ^ 8"
    using unsigned_less[of a] unsigned_less[of d] by simp_all
  then show ?thesis
    by (simp add: unat_word_ariths unsigned_ucast_eq take_bit_nat_eq_self)
qed

lemma be16_split:
  "256 * unat (ucast (drop_bit 8 (c::u16)) :: u8) + unat (ucast c :: u8) = unat c"
proof -
  have "unat c < 2 ^ 16" using unsigned_less[of c] by simp
  then show ?thesis
    by (simp add: unsigned_ucast_eq unat_drop_bit_eq take_bit_eq_mod drop_bit_eq_div unat_div)
qed

lemma bit4_gen:
  "bit (4::'a::semiring_bit_operations) k \<longleftrightarrow> possible_bit TYPE('a) k \<and> k = 2"
proof -
  have "(4::'a) = push_bit 2 1" by simp
  then show ?thesis by (simp only: bit_push_bit_iff bit_1_iff) auto
qed

lemma bit_cmd2:
  assumes "(cmd::u8) < 4" "bit cmd k"
  shows "k < 2"
proof -
  have "cmd < 2 ^ 2" using assms(1) by simp
  then have "take_bit 2 cmd = cmd" by (simp only: less_mask_eq take_bit_eq_mask)
  then have "bit (take_bit 2 cmd) k" using assms(2) by simp
  then show ?thesis by (simp add: bit_take_bit_iff)
qed

lemma command_word:
  assumes "n \<le> 13" "cmd < 4"
  shows "unat (ucast (push_bit n (ucast (cmd OR push_bit 2 1 :: u8) :: c_int)
            OR ucast (ucast ((ucast (addr::u16) :: c_int) AND (push_bit n 1 - 1)) :: u16)) :: u16)
     = push_bit n (unat cmd OR 4) OR (unat addr AND (2 ^ n - 1))"
proof -
  have m1: "push_bit n (1::c_int) - 1 = mask n" by (simp add: mask_eq_exp_minus_1)
  have m2: "(2::nat) ^ n - 1 = mask n" by (simp add: mask_eq_exp_minus_1)
  show ?thesis unfolding m1 m2
  proof (rule bit_eqI)
    fix k
    have a: "bit addr k \<Longrightarrow> k < 16" using bit_imp_le_length[of addr k] by simp
    have c: "bit cmd (k - n) \<Longrightarrow> k - n < 2" using bit_cmd2[OF assms(2)] by blast
    show "bit (unat (ucast (push_bit n (ucast (cmd OR push_bit 2 1 :: u8) :: c_int)
              OR ucast (ucast ((ucast (addr::u16) :: c_int) AND mask n) :: u16)) :: u16)) k
       = bit (push_bit n (unat cmd OR 4) OR (unat addr AND mask n)) k"
      using a c assms(1) by (auto simp add: bit_simps bit4_gen)
  qed
qed

lemma prepare_cmd_be16:
  assumes "cmd < 4" "unat (addr_bits e) + unat dummy_bits \<le> 13"
  shows "\<exists>bs. tx_buf (prepare_cmd e cmd addr dummy_bits) = Some bs \<and> length bs = 2 \<and>
    be16 bs = push_bit (unat (addr_bits e) + unat dummy_bits) (unat cmd OR 4)
                OR (unat addr AND (2 ^ (unat (addr_bits e) + unat dummy_bits) - 1))"
  using command_word[OF assms(2) assms(1), of addr]
  by (simp add: prepare_cmd_def Let_def be16_def be16_split bits_u16)

text \<open>
  C1. For a 2-bit opcode and \<open>bits = addr_bits + dummy_bits \<le> 13\<close>, \<open>prepare_cmd\<close>
  makes a transfer of exactly 2 bytes whose big-endian 16-bit value is
  \<open>((opcode | 0b100) << bits) | (address & ((1 << bits) - 1))\<close>. Address bits above
  \<open>bits\<close> are masked off; no input is an error (the function has no error result).
\<close>

theorem prepare_cmd_encodes:
  assumes "cmd < 4" and "unat (addr_bits e) + unat dummy_bits \<le> 13"
  shows "\<exists>bs. tx_buf (prepare_cmd e cmd addr dummy_bits) = Some bs \<and> length bs = 2
    \<and> len (prepare_cmd e cmd addr dummy_bits) = 2
    \<and> bits_per_word (prepare_cmd e cmd addr dummy_bits) = 8
    \<and> be16 bs = push_bit (unat (addr_bits e) + unat dummy_bits) (unat cmd OR 4)
                  OR (unat addr AND (2 ^ (unat (addr_bits e) + unat dummy_bits) - 1))"
proof -
  obtain bs where "tx_buf (prepare_cmd e cmd addr dummy_bits) = Some bs" "length bs = 2"
    "be16 bs = push_bit (unat (addr_bits e) + unat dummy_bits) (unat cmd OR 4)
                  OR (unat addr AND (2 ^ (unat (addr_bits e) + unat dummy_bits) - 1))"
    using prepare_cmd_be16[OF assms] by blast
  moreover have "len (prepare_cmd e cmd addr dummy_bits) = 2"
    "bits_per_word (prepare_cmd e cmd addr dummy_bits) = 8"
    by (simp_all add: prepare_cmd_def Let_def)
  ultimately show ?thesis by blast
qed

theorem prepare_cmd_encodes_witness:
  "OPCODE_READ < 4 \<and> unat (addr_bits (eeprom_types_list ! 0)) + unat (1::u8) \<le> 13 \<and>
   (\<exists>bs. tx_buf (prepare_cmd (eeprom_types_list ! 0) OPCODE_READ 0xFFFF 1) = Some bs \<and> length bs = 2
      \<and> len (prepare_cmd (eeprom_types_list ! 0) OPCODE_READ 0xFFFF 1) = 2
      \<and> bits_per_word (prepare_cmd (eeprom_types_list ! 0) OPCODE_READ 0xFFFF 1) = 8
      \<and> be16 bs = 0x1BFF)"
  using prepare_cmd_encodes[where cmd=OPCODE_READ and e="eeprom_types_list ! 0" and dummy_bits=1 and addr="0xFFFF"]
  by (simp add: eeprom_types_list_def OPCODE_READ_def)

lemma hdr_div: "(y::nat) < 2 ^ n \<Longrightarrow> (push_bit n x OR y) div 2 ^ n = x"
proof -
  assume "y < 2 ^ n"
  then have "drop_bit n y = 0" by (simp add: drop_bit_eq_div)
  then have "drop_bit n (push_bit n x OR y) = x" by (simp add: drop_bit_or drop_bit_push_bit)
  then show ?thesis by (simp add: drop_bit_eq_div)
qed

lemma hdr_mod: "(y::nat) < 2 ^ n \<Longrightarrow> (push_bit n x OR y) mod 2 ^ n = y"
  by (simp add: take_bit_or take_bit_push_bit take_bit_nat_eq_self flip: take_bit_eq_mod)

lemma and_mask_nat: "(x::nat) AND (2 ^ n - 1) = x mod 2 ^ n"
proof -
  have "(2::nat) ^ n - 1 = mask n" by (simp only: mask_eq_exp_minus_1)
  then show ?thesis by (simp only: take_bit_eq_mod flip: take_bit_eq_mask)
qed

lemma unat_op4: "(c::u8) < 4 \<Longrightarrow> unat c < 4"
  by (simp add: word_less_nat_alt)

lemma subcode_unat:
  assumes "(subop::u8) < 4" "k \<le> 11"
  shows "unat (ucast (push_bit k (ucast subop :: c_int)) :: u16) = unat subop * 2 ^ k"
proof -
  have s4: "unat subop < 4" using assms(1) by (rule unat_op4)
  have "(2::nat) ^ k \<le> 2 ^ 11" using assms(2) by (intro power_increasing) simp_all
  then have "unat subop * 2 ^ k < 4 * 2 ^ 11"
    using s4 by (intro mult_less_le_imp_less) simp_all
  then have b: "unat subop * 2 ^ k < 2 ^ 13" by simp
  then have b32: "unat subop * 2 ^ k < 2 ^ 32" and b16: "unat subop * 2 ^ k < 2 ^ 16"
    by simp_all
  have u: "unat (ucast subop :: c_int) = unat subop"
    using s4 by (simp add: unsigned_ucast_eq take_bit_nat_eq_self)
  have "unat (push_bit k (ucast subop :: c_int)) = take_bit 32 (push_bit k (unat subop))"
    unfolding unsigned_push_bit_eq u by simp
  then have p: "unat (push_bit k (ucast subop :: c_int)) = unat subop * 2 ^ k"
    using b32 by (simp add: push_bit_eq_mult take_bit_nat_eq_self)
  have "unat (ucast (push_bit k (ucast subop :: c_int)) :: u16)
        = take_bit 16 (unat (push_bit k (ucast subop :: c_int)))"
    unfolding unsigned_ucast_eq by simp
  then show ?thesis
    unfolding p using b16 by (simp add: take_bit_nat_eq_self)
qed

definition pad_to_byte :: "nat \<Rightarrow> nat" where
  "pad_to_byte n = 8 * ((n + 7) div 8)"

lemma pad_to_byte_least:
  "8 dvd pad_to_byte n \<and> n \<le> pad_to_byte n \<and> (\<forall>m. 8 dvd m \<and> n \<le> m \<longrightarrow> pad_to_byte n \<le> m)"
  unfolding pad_to_byte_def by (auto elim!: dvdE) 

text \<open>
  C7. Every header that \<open>prepare_cmd\<close> makes is exactly 2 bytes, 16 bits, whatever
  \<open>addr_bits\<close> and \<open>dummy_bits\<close> are. That is a multiple of 8; it is the smallest
  multiple of 8 that holds the \<open>3 + addr_bits + dummy_bits\<close> bits of the command
  exactly when \<open>6 \<le> addr_bits + dummy_bits \<le> 13\<close>. With 8 bits or fewer to send the
  header is still 2 bytes.
\<close>

theorem header_always_two_bytes:
  "len (prepare_cmd e cmd addr dummy_bits) = 2
   \<and> 8 dvd 8 * len (prepare_cmd e cmd addr dummy_bits)
   \<and> (8 * len (prepare_cmd e cmd addr dummy_bits)
        = pad_to_byte (3 + unat (addr_bits e) + unat dummy_bits)
      \<longleftrightarrow> 6 \<le> unat (addr_bits e) + unat dummy_bits \<and> unat (addr_bits e) + unat dummy_bits \<le> 13)"
  by (auto simp add: prepare_cmd_def Let_def xfer_zero_def pad_to_byte_def)


lemma four_pow: "2 \<le> n \<Longrightarrow> (4::nat) * 2 ^ (n - 2) = 2 ^ n"
proof -
  assume "2 \<le> n"
  then obtain k where "n = 2 + k" using le_Suc_ex by blast
  then show ?thesis by simp
qed

lemma or4_nat: "(c::nat) < 4 \<Longrightarrow> c OR 4 = c + 4"
proof -
  assume "c < 4"
  then have "c = 0 \<or> c = 1 \<or> c = 2 \<or> c = 3" by arith
  then show ?thesis by auto
qed

lemma prepare_cmd_fields:
  assumes "cmd < 4" "unat (addr_bits e) + unat dummy_bits \<le> 13"
  shows "\<exists>bs. tx_buf (prepare_cmd e cmd addr dummy_bits) = Some bs \<and> length bs = 2
    \<and> be16 bs div 2 ^ (unat (addr_bits e) + unat dummy_bits) = unat cmd + 4
    \<and> be16 bs mod 2 ^ (unat (addr_bits e) + unat dummy_bits)
        = unat addr mod 2 ^ (unat (addr_bits e) + unat dummy_bits)"
proof -
  let ?n = "unat (addr_bits e) + unat dummy_bits"
  obtain bs where bs: "tx_buf (prepare_cmd e cmd addr dummy_bits) = Some bs" "length bs = 2"
    "be16 bs = push_bit ?n (unat cmd OR 4) OR (unat addr AND (2 ^ ?n - 1))"
    using prepare_cmd_be16[OF assms] by blast
  have y: "unat addr mod 2 ^ ?n < 2 ^ ?n" by simp
  have v: "be16 bs = push_bit ?n (unat cmd + 4) OR (unat addr mod 2 ^ ?n)"
    unfolding bs(3) and_mask_nat or4_nat[OF unat_op4[OF assms(1)]] by (rule refl)
  have "be16 bs div 2 ^ ?n = unat cmd + 4" "be16 bs mod 2 ^ ?n = unat addr mod 2 ^ ?n"
    unfolding v by (rule hdr_div[OF y], rule hdr_mod[OF y])
  then show ?thesis using bs(1,2) by blast
qed

lemma send_command_msg_field:
  assumes "op < 4" and "subop < 4"
    and "2 \<le> unat (addr_bits e)" and "unat (addr_bits e) \<le> 13"
  shows "\<exists>x bs. send_command_msg e op subop = [x] \<and> tx_buf x = Some bs \<and> length bs = 2
    \<and> be16 bs div 2 ^ unat (addr_bits e) = unat op + 4
    \<and> be16 bs mod 2 ^ unat (addr_bits e) = push_bit (unat (addr_bits e) - 2) (unat subop)
    \<and> (be16 bs mod 2 ^ unat (addr_bits e)) div 2 ^ (unat (addr_bits e) - 2) = unat subop"
proof -
  let ?ab = "unat (addr_bits e)"
  let ?sub = "(ucast (push_bit (?ab - 2) (ucast subop :: c_int)) :: u16)"
  have k: "?ab - 2 \<le> 11" using assms(4) by simp
  have su: "unat ?sub = unat subop * 2 ^ (?ab - 2)" by (rule subcode_unat[OF assms(2) k])
  have "unat subop * 2 ^ (?ab - 2) < 4 * 2 ^ (?ab - 2)"
    using unat_op4[OF assms(2)] by simp
  also have "\<dots> = 2 ^ ?ab"
    using assms(3) by (rule four_pow)
  finally have lt: "unat ?sub < 2 ^ ?ab" using su by simp
  have d0: "?ab + unat (0::u8) \<le> 13" using assms(4) by simp
  obtain bs where bs: "tx_buf (prepare_cmd e op ?sub 0) = Some bs" "length bs = 2"
    "be16 bs div 2 ^ (?ab + unat (0::u8)) = unat op + 4"
    "be16 bs mod 2 ^ (?ab + unat (0::u8)) = unat ?sub mod 2 ^ (?ab + unat (0::u8))"
    using prepare_cmd_fields[OF assms(1) d0, of ?sub] by blast
  have m: "be16 bs mod 2 ^ ?ab = unat subop * 2 ^ (?ab - 2)"
    using bs(4) lt su by simp
  have m1: "be16 bs mod 2 ^ ?ab = push_bit (?ab - 2) (unat subop)"
    unfolding m push_bit_eq_mult by (rule refl)
  have m2: "(be16 bs mod 2 ^ ?ab) div 2 ^ (?ab - 2) = unat subop"
    unfolding m by simp
  have d: "be16 bs div 2 ^ ?ab = unat op + 4"
    using bs(3) by simp
  have t: "tx_buf ((prepare_cmd e op ?sub 0)\<lparr>speed_hz := 100000\<rparr>) = Some bs"
    using bs(1) by simp
  have msg: "send_command_msg e op subop = [(prepare_cmd e op ?sub 0)\<lparr>speed_hz := 100000\<rparr>]"
    by (simp only: send_command_msg_def Let_def)
  show ?thesis
    using msg t bs(2) d m1 m2 by blast
qed

text \<open>
  C5. \<open>send_command\<close> makes one \<open>ioctl\<close> with a single transfer: the 2-byte header
  that \<open>prepare_cmd\<close> makes with no dummy bit for the subcode shifted left by
  \<open>addr_bits - 2\<close>. In it the start bit and the opcode stand directly above an
  address field of \<open>addr_bits\<close> bits, and that field is the shifted subcode, so the
  subcode is its two highest bits. (The witness is \<open>enable_write\<close> with
  \<open>addr_bits = 7\<close>: subcode \<open>0b11\<close>, field \<open>0b11 << 5\<close>.)
\<close>

theorem send_command_subcode_placement:
  assumes "op < 4" and "subop < 4"
    and "2 \<le> unat (addr_bits e)" and "unat (addr_bits e) \<le> 13"
  shows "\<exists>x bs. send_command io e op subop s = (case io s [x] of (ret, rx, s') \<Rightarrow> (ret, s'))
    \<and> x = (prepare_cmd e op
              (ucast (push_bit (unat (addr_bits e) - 2) (ucast subop :: c_int)) :: u16) 0)
            \<lparr>speed_hz := 100000\<rparr>
    \<and> tx_buf x = Some bs \<and> length bs = 2
    \<and> be16 bs div 2 ^ unat (addr_bits e) = unat op + 4
    \<and> be16 bs mod 2 ^ unat (addr_bits e) = push_bit (unat (addr_bits e) - 2) (unat subop)
    \<and> (be16 bs mod 2 ^ unat (addr_bits e)) div 2 ^ (unat (addr_bits e) - 2) = unat subop"
proof -
  obtain x bs where f: "send_command_msg e op subop = [x]" "tx_buf x = Some bs" "length bs = 2"
    "be16 bs div 2 ^ unat (addr_bits e) = unat op + 4"
    "be16 bs mod 2 ^ unat (addr_bits e) = push_bit (unat (addr_bits e) - 2) (unat subop)"
    "(be16 bs mod 2 ^ unat (addr_bits e)) div 2 ^ (unat (addr_bits e) - 2) = unat subop"
    using send_command_msg_field[OF assms] by blast
  have c: "send_command io e op subop s = (case io s [x] of (ret, rx, s') \<Rightarrow> (ret, s'))"
    by (simp only: send_command_def f(1))
  have "send_command_msg e op subop
      = [(prepare_cmd e op
            (ucast (push_bit (unat (addr_bits e) - 2) (ucast subop :: c_int)) :: u16) 0)
          \<lparr>speed_hz := 100000\<rparr>]"
    by (simp only: send_command_msg_def Let_def)
  then have x: "x = (prepare_cmd e op
              (ucast (push_bit (unat (addr_bits e) - 2) (ucast subop :: c_int)) :: u16) 0)
            \<lparr>speed_hz := 100000\<rparr>"
    unfolding f(1) by simp
  show ?thesis using c x f(2-6) by blast
qed

theorem send_command_subcode_placement_witness:
  "OPCODE_EWEN < 4 \<and> SUBCODE_EWEN < 4 \<and> unat (addr_bits (eeprom_types_list ! 2)) = 7
   \<and> (\<exists>x bs. enable_write dead_bus (eeprom_types_list ! 2) ()
            = (case dead_bus () [x] of (ret, rx, s') \<Rightarrow> (ret, s'))
        \<and> tx_buf x = Some bs \<and> length bs = 2
        \<and> be16 bs div 2 ^ 7 = 4
        \<and> be16 bs mod 2 ^ 7 = push_bit 5 3
        \<and> (be16 bs mod 2 ^ 7) div 2 ^ 5 = 3)"
proof -
  let ?E = "eeprom_types_list ! 2"
  have ab: "unat (addr_bits ?E) = 7" by (simp add: eeprom_types_list_def)
  have h1: "OPCODE_EWEN < 4" and h2: "SUBCODE_EWEN < 4"
    by (simp_all add: OPCODE_EWEN_def SUBCODE_EWEN_def)
  have h3: "2 \<le> unat (addr_bits ?E)" and h4: "unat (addr_bits ?E) \<le> 13"
    by (simp_all add: ab)
  obtain x bs where
    c: "send_command dead_bus ?E OPCODE_EWEN SUBCODE_EWEN ()
          = (case dead_bus () [x] of (ret, rx, s') \<Rightarrow> (ret, s'))"
    and t: "tx_buf x = Some bs" "length bs = 2"
    and d: "be16 bs div 2 ^ unat (addr_bits ?E) = unat OPCODE_EWEN + 4"
    and m: "be16 bs mod 2 ^ unat (addr_bits ?E)
              = push_bit (unat (addr_bits ?E) - 2) (unat SUBCODE_EWEN)"
    and q: "(be16 bs mod 2 ^ unat (addr_bits ?E)) div 2 ^ (unat (addr_bits ?E) - 2)
              = unat SUBCODE_EWEN"
    using send_command_subcode_placement[OF h1 h2 h3 h4, where io=dead_bus and s="()"]
    by blast
  have c': "enable_write dead_bus ?E () = (case dead_bus () [x] of (ret, rx, s') \<Rightarrow> (ret, s'))"
    using c by (simp only: enable_write_def)
  have d': "be16 bs div 2 ^ 7 = 4" using d unfolding ab by (simp add: OPCODE_EWEN_def)
  have m': "be16 bs mod 2 ^ 7 = push_bit 5 3" using m unfolding ab by (simp add: SUBCODE_EWEN_def)
  have q': "(be16 bs mod 2 ^ 7) div 2 ^ 5 = 3" using q unfolding ab by (simp add: SUBCODE_EWEN_def)
  show ?thesis using h1 h2 ab c' t d' m' q' by blast
qed

text \<open>
  C4. \<open>read_data\<close> hands the bus one message of two chained transfers: the header
  that \<open>prepare_cmd\<close> makes for \<open>OPCODE_READ\<close> with 1 dummy bit (the start bit and
  the opcode, \<open>0b110\<close>, stand above a field of \<open>addr_bits + 1\<close> bits), then a
  transfer that only receives, of the requested length. \<open>write_data\<close> hands it the
  header for \<open>OPCODE_WRITE\<close> with 0 dummy bits (\<open>0b101\<close> above a field of
  \<open>addr_bits\<close> bits), then a transfer that only sends the data.
\<close>

theorem read_write_headers:
  assumes "unat (addr_bits e) \<le> 12"
  shows "(\<exists>h bs. read_data io e n addr s
            = io s [h, xfer_zero\<lparr>rx_buf := True, len := n, bits_per_word := 8, speed_hz := 100000\<rparr>]
          \<and> h = (prepare_cmd e OPCODE_READ addr 1)\<lparr>speed_hz := 100000\<rparr>
          \<and> tx_buf h = Some bs \<and> \<not> rx_buf h \<and> length bs = 2
          \<and> be16 bs div 2 ^ (unat (addr_bits e) + 1) = 6
          \<and> be16 bs mod 2 ^ (unat (addr_bits e) + 1) = unat addr mod 2 ^ (unat (addr_bits e) + 1)
          \<and> tx_buf (xfer_zero\<lparr>rx_buf := True, len := n, bits_per_word := 8, speed_hz := 100000\<rparr>) = None)
       \<and> (\<exists>h bs. write_data io e addr data s
            = (case io s [h, xfer_zero\<lparr>tx_buf := Some data, len := length data,
                                bits_per_word := 8, speed_hz := 100000\<rparr>]
               of (ret, rx, s') \<Rightarrow> (ret, s'))
          \<and> h = (prepare_cmd e OPCODE_WRITE addr 0)\<lparr>speed_hz := 100000\<rparr>
          \<and> tx_buf h = Some bs \<and> \<not> rx_buf h \<and> length bs = 2
          \<and> be16 bs div 2 ^ unat (addr_bits e) = 5
          \<and> be16 bs mod 2 ^ unat (addr_bits e) = unat addr mod 2 ^ unat (addr_bits e)
          \<and> \<not> rx_buf (xfer_zero\<lparr>tx_buf := Some data, len := length data,
                                bits_per_word := 8, speed_hz := 100000\<rparr>))"
proof -
  let ?x2 = "xfer_zero\<lparr>rx_buf := True, len := n, bits_per_word := 8, speed_hz := 100000\<rparr>"
  let ?y2 = "xfer_zero\<lparr>tx_buf := Some data, len := length data,
                                bits_per_word := 8, speed_hz := 100000\<rparr>"
  have r4: "OPCODE_READ < 4" and w4: "OPCODE_WRITE < 4"
    by (simp_all add: OPCODE_READ_def OPCODE_WRITE_def)
  have d1: "unat (addr_bits e) + unat (1::u8) \<le> 13" and d0: "unat (addr_bits e) + unat (0::u8) \<le> 13"
    using assms by simp_all
  obtain rb where rb: "tx_buf (prepare_cmd e OPCODE_READ addr 1) = Some rb" "length rb = 2"
    "be16 rb div 2 ^ (unat (addr_bits e) + unat (1::u8)) = unat OPCODE_READ + 4"
    "be16 rb mod 2 ^ (unat (addr_bits e) + unat (1::u8))
       = unat addr mod 2 ^ (unat (addr_bits e) + unat (1::u8))"
    using prepare_cmd_fields[OF r4 d1, of addr] by blast
  obtain wb where wb: "tx_buf (prepare_cmd e OPCODE_WRITE addr 0) = Some wb" "length wb = 2"
    "be16 wb div 2 ^ (unat (addr_bits e) + unat (0::u8)) = unat OPCODE_WRITE + 4"
    "be16 wb mod 2 ^ (unat (addr_bits e) + unat (0::u8))
       = unat addr mod 2 ^ (unat (addr_bits e) + unat (0::u8))"
    using prepare_cmd_fields[OF w4 d0, of addr] by blast
  have nrx: "\<not> rx_buf (prepare_cmd e c addr dm)" for c dm
    by (simp add: prepare_cmd_def Let_def xfer_zero_def)
  define hr where "hr = (prepare_cmd e OPCODE_READ addr 1)\<lparr>speed_hz := 100000\<rparr>"
  define hw where "hw = (prepare_cmd e OPCODE_WRITE addr 0)\<lparr>speed_hz := 100000\<rparr>"
  have r1: "read_data io e n addr s = io s [hr, ?x2]"
    by (simp only: read_data_def read_data_msg_def hr_def)
  have r2: "tx_buf hr = Some rb" "\<not> rx_buf hr"
    using rb(1) nrx[of OPCODE_READ 1] by (simp_all add: hr_def)
  have r3: "be16 rb div 2 ^ (unat (addr_bits e) + 1) = 6"
    using rb(3) by (simp add: OPCODE_READ_def)
  have r5: "be16 rb mod 2 ^ (unat (addr_bits e) + 1) = unat addr mod 2 ^ (unat (addr_bits e) + 1)"
    using rb(4) by simp
  have r6: "tx_buf ?x2 = None" by (simp add: xfer_zero_def)
  have w1: "write_data io e addr data s = (case io s [hw, ?y2] of (ret, rx, s') \<Rightarrow> (ret, s'))"
    by (simp only: write_data_def write_data_msg_def hw_def)
  have w2: "tx_buf hw = Some wb" "\<not> rx_buf hw"
    using wb(1) nrx[of OPCODE_WRITE 0] by (simp_all add: hw_def)
  have w3: "be16 wb div 2 ^ unat (addr_bits e) = 5"
    using wb(3) by (simp add: OPCODE_WRITE_def)
  have w5: "be16 wb mod 2 ^ unat (addr_bits e) = unat addr mod 2 ^ unat (addr_bits e)"
    using wb(4) by simp
  have w6: "\<not> rx_buf ?y2" by (simp add: xfer_zero_def)
  have rd: "\<exists>h bs. read_data io e n addr s = io s [h, ?x2]
          \<and> h = (prepare_cmd e OPCODE_READ addr 1)\<lparr>speed_hz := 100000\<rparr>
          \<and> tx_buf h = Some bs \<and> \<not> rx_buf h \<and> length bs = 2
          \<and> be16 bs div 2 ^ (unat (addr_bits e) + 1) = 6
          \<and> be16 bs mod 2 ^ (unat (addr_bits e) + 1) = unat addr mod 2 ^ (unat (addr_bits e) + 1)
          \<and> tx_buf ?x2 = None"
    using r1 r2 r3 r5 r6 rb(2) hr_def by blast
  have wr: "\<exists>h bs. write_data io e addr data s = (case io s [h, ?y2] of (ret, rx, s') \<Rightarrow> (ret, s'))
          \<and> h = (prepare_cmd e OPCODE_WRITE addr 0)\<lparr>speed_hz := 100000\<rparr>
          \<and> tx_buf h = Some bs \<and> \<not> rx_buf h \<and> length bs = 2
          \<and> be16 bs div 2 ^ unat (addr_bits e) = 5
          \<and> be16 bs mod 2 ^ unat (addr_bits e) = unat addr mod 2 ^ unat (addr_bits e)
          \<and> \<not> rx_buf ?y2"
    using w1 w2 w3 w5 w6 wb(2) hw_def by blast
  show ?thesis using rd wr by (rule conjI)
qed

theorem read_write_headers_witness:
  "unat (addr_bits (eeprom_types_list ! 0)) \<le> 12
   \<and> (\<exists>h bs. read_data dead_bus (eeprom_types_list ! 0) 2 4 ()
            = dead_bus () [h, xfer_zero\<lparr>rx_buf := True, len := 2, bits_per_word := 8, speed_hz := 100000\<rparr>]
          \<and> tx_buf h = Some bs \<and> length bs = 2
          \<and> be16 bs div 2 ^ (9 + 1) = 6 \<and> be16 bs mod 2 ^ (9 + 1) = 4)
   \<and> (\<exists>h bs. write_data dead_bus (eeprom_types_list ! 0) 4 [0xAA] ()
            = (case dead_bus () [h, xfer_zero\<lparr>tx_buf := Some [0xAA], len := 1, bits_per_word := 8, speed_hz := 100000\<rparr>]
               of (ret, rx, s') \<Rightarrow> (ret, s'))
          \<and> tx_buf h = Some bs \<and> length bs = 2
          \<and> be16 bs div 2 ^ 9 = 5 \<and> be16 bs mod 2 ^ 9 = 4)"
proof -
  have h: "unat (addr_bits (eeprom_types_list ! 0)) \<le> 12"
    by (simp add: eeprom_types_list_def)
  have ab: "unat (addr_bits (eeprom_types_list ! 0)) = 9"
    by (simp add: eeprom_types_list_def)
  have a4: "unat (4::u16) mod 2 ^ (9 + 1) = 4" "unat (4::u16) mod 2 ^ 9 = 4" "length [0xAA::u8] = 1"
    by simp_all
  show ?thesis
    using read_write_headers[OF h, where io=dead_bus and n=2 and addr=4 and data="[0xAA]" and s="()"] h
    unfolding ab a4 by blast
qed

definition custom_b5 :: eeprom_cfg where
  "custom_b5 = (case main_profile [Opt_b 5] of Inr cfg \<Rightarrow> cfg | Inl status \<Rightarrow> config main_init)"

lemma custom_b5_eeprom:
  "eeprom custom_b5 = \<lparr>name = ''custom'', spi_fd = 0, size_bytes = 256, addr_bits = 5,
         flags = EEPROM_ORG, is_x16 = False\<rparr>"
  by (simp add: custom_b5_def main_profile_def main_init_def)

theorem header_two_bytes_counterexample:
  "sanitize_input custom_b5 = None
   \<and> 3 + unat (addr_bits (eeprom custom_b5)) + unat (0::u8) \<le> 8
   \<and> len (prepare_cmd (eeprom custom_b5) OPCODE_WRITE 0 0) = 2
   \<and> 8 * len (prepare_cmd (eeprom custom_b5) OPCODE_WRITE 0 0)
       \<noteq> pad_to_byte (3 + unat (addr_bits (eeprom custom_b5)) + unat (0::u8))"
  by (simp add: custom_b5_eeprom sanitize_input_def prepare_cmd_def xfer_zero_def pad_to_byte_def
      EEPROM_ORG_def EEPROM_X8_def EEPROM_X16_def Let_def)

text \<open>
  C8. On any bus, \<open>read_data\<close>, \<open>write_data\<close>, \<open>send_command\<close> and its wrappers
  \<open>enable_write\<close>, \<open>diable_write\<close> and \<open>erase_all\<close> make exactly one \<open>ioctl\<close> and
  give its return code back unchanged, so a failure reaches the caller at once and
  nothing is tried again. \<open>read_status\<close> also makes exactly one \<open>ioctl\<close>, but its
  result is only the status byte: the byte received, or 0 when nothing was
  received; the return code is dropped.
\<close>

theorem primitives_one_ioctl:
  "read_data (traced io) e n addr (s, log)
     = (case io s (read_data_msg e n addr) of
          (ret, rx, s') \<Rightarrow> (ret, rx, (s', log @ [(read_data_msg e n addr, ret, rx)])))
   \<and> write_data (traced io) e addr data (s, log)
     = (case io s (write_data_msg e addr data) of
          (ret, rx, s') \<Rightarrow> (ret, (s', log @ [(write_data_msg e addr data, ret, rx)])))
   \<and> send_command (traced io) e op subop (s, log)
     = (case io s (send_command_msg e op subop) of
          (ret, rx, s') \<Rightarrow> (ret, (s', log @ [(send_command_msg e op subop, ret, rx)])))
   \<and> enable_write (traced io) e (s, log)
     = (case io s (send_command_msg e OPCODE_EWEN SUBCODE_EWEN) of
          (ret, rx, s') \<Rightarrow>
            (ret, (s', log @ [(send_command_msg e OPCODE_EWEN SUBCODE_EWEN, ret, rx)])))
   \<and> diable_write (traced io) e (s, log)
     = (case io s (send_command_msg e OPCODE_EWEN SUBCODE_EWDS) of
          (ret, rx, s') \<Rightarrow>
            (ret, (s', log @ [(send_command_msg e OPCODE_EWEN SUBCODE_EWDS, ret, rx)])))
   \<and> erase_all (traced io) e (s, log)
     = (case io s (send_command_msg e OPCODE_EWEN SUBCODE_ERAL) of
          (ret, rx, s') \<Rightarrow>
            (ret, (s', log @ [(send_command_msg e OPCODE_EWEN SUBCODE_ERAL, ret, rx)])))
   \<and> read_status (traced io) e (s, log)
     = (case io s read_status_msg of
          (ret, rx, s') \<Rightarrow>
            ((case rx of [] \<Rightarrow> 0 | b # bs \<Rightarrow> b), (s', log @ [(read_status_msg, ret, rx)])))"
  by (simp add: read_data_def write_data_def send_command_def read_status_def traced_def
      enable_write_def diable_write_def erase_all_def split: prod.split)

lemma poll_ready_never:
  assumes nr: "\<And>s. fst (read_status io e s) \<noteq> 0xff"
  shows "poll_ready io e s = None"
proof (cases "poll_ready io e s")
  case None
  then show ?thesis .
next
  case (Some y)
  have "(\<forall>s. fst (read_status io e s) \<noteq> 0xff) \<longrightarrow> False"
    by (rule poll_ready.raw_induct[where P = "\<lambda>io e s y. (\<forall>s. fst (read_status io e s) \<noteq> 0xff) \<longrightarrow> False", OF _ Some])
       (auto split: prod.splits if_splits, metis fst_conv)
  then show ?thesis using nr by blast
qed

lemma poll_ready_ready:
  "fst (read_status io e s) = 0xff \<Longrightarrow> poll_ready io e s = Some (snd (read_status io e s))"
  by (subst poll_ready.simps) (cases "read_status io e s", simp)

lemma poll_ready_busy:
  "fst (read_status io e s) \<noteq> 0xff \<Longrightarrow> poll_ready io e s = poll_ready io e (snd (read_status io e s))"
  by (subst poll_ready.simps) (cases "read_status io e s", simp)

definition busy_bus :: "unit spi_bus" where
  "busy_bus s msg = (int (msg_len msg), replicate (msg_rx_len msg) 0, s)"

theorem read_status_drops_failure:
  "fst (dead_bus () read_status_msg) < 0
   \<and> 0 \<le> fst (busy_bus () read_status_msg)
   \<and> read_status dead_bus (eeprom_types_list ! 0) () = (0, ())
   \<and> read_status dead_bus (eeprom_types_list ! 0) () = read_status busy_bus (eeprom_types_list ! 0) ()
   \<and> poll_ready dead_bus (eeprom_types_list ! 0) () = None"
proof -
  have a: "read_status dead_bus e () = (0, ())" for e
    by (simp add: read_status_def dead_bus_def)
  have b: "read_status busy_bus e () = (0, ())" for e
    by (simp add: read_status_def busy_bus_def read_status_msg_def msg_rx_len_def xfer_zero_def)
  have c: "poll_ready dead_bus e () = None" for e
    by (rule poll_ready_never) (simp add: read_status_def dead_bus_def)
  show ?thesis
    using a b c by (simp add: dead_bus_def busy_bus_def)
qed

text \<open>What a list of options says: was \<open>--x16\<close> there, the last \<open>-t\<close>, the last \<open>-b\<close>.\<close>

definition opts_x16 :: "opt list \<Rightarrow> bool" where
  "opts_x16 os = (Flag_x16 \<in> set os)"

fun last_type :: "opt list \<Rightarrow> string option" where
  "last_type [] = None"
| "last_type (Opt_t s # os) = (case last_type os of None \<Rightarrow> Some s | Some t \<Rightarrow> Some t)"
| "last_type (x # os) = last_type os"

fun last_bits :: "opt list \<Rightarrow> int option" where
  "last_bits [] = None"
| "last_bits (Opt_b n # os) = (case last_bits os of None \<Rightarrow> Some n | Some m \<Rightarrow> Some m)"
| "last_bits (x # os) = last_bits os"

lemma getopt_loop_vars:
  "getopt_loop os v = Inr v' \<Longrightarrow>
     x16 v' = (x16 v \<or> opts_x16 os)
   \<and> eeprom_type v' = (case last_type os of None \<Rightarrow> eeprom_type v | Some t \<Rightarrow> Some t)
   \<and> type_specified v' = (type_specified v \<or> last_type os \<noteq> None)
   \<and> addr_bits (eeprom (config v'))
       = (case last_bits os of None \<Rightarrow> addr_bits (eeprom (config v)) | Some n \<Rightarrow> word_of_int n)"
proof (induction os v arbitrary: v' rule: getopt_loop.induct)
  case (1 v)
  then show ?case by (simp add: opts_x16_def)
next
  case (2 os v)
  from "2.IH"[OF "2.prems"[simplified]] show ?case
    by (auto simp: opts_x16_def split: option.splits)
next
  case (3 os v)
  from "3.IH"[OF "3.prems"[simplified]] show ?case
    by (auto simp: opts_x16_def split: option.splits)
next
  case (4 s os v)
  from "4.IH"[OF "4.prems"[simplified]] show ?case
    by (auto simp: opts_x16_def split: option.splits)
next
  case (5 s os v)
  from "5.IH"[OF "5.prems"[simplified]] show ?case
    by (auto simp: opts_x16_def split: option.splits)
next
  case (6 n os v)
  from "6.IH"[OF "6.prems"[simplified]] show ?case
    by (auto simp: opts_x16_def split: option.splits)
next
  case (7 n os v)
  from "7.IH"[OF "7.prems"[simplified]] show ?case
    by (auto simp: opts_x16_def split: option.splits)
next
  case (8 s os v)
  from "8.IH"[OF "8.prems"[simplified]] show ?case
    by (auto simp: opts_x16_def split: option.splits)
next
  case (9 s os v)
  from "9.IH"[OF "9.prems"[simplified]] show ?case
    by (auto simp: opts_x16_def split: option.splits)
next
  case (10 os v)
  from "10.IH"[OF "10.prems"[simplified]] show ?case
    by (auto simp: opts_x16_def split: option.splits)
next
  case (11 os v)
  then show ?case by simp
next
  case (12 os v)
  then show ?case by simp
qed

lemma eeprom_find_bits:
  "eeprom_find ty = Some y \<Longrightarrow> 6 \<le> unat (addr_bits y) \<and> unat (addr_bits y) \<le> 9"
  by (auto simp: eeprom_find_def eeprom_types_list_def split: if_splits)


text \<open>
  C3. The profile that \<open>main\<close> hands on has \<open>is_x16\<close> set from \<open>--x16\<close>. When the
  part was named with \<open>-t\<close>, its address width is the table's \<open>addr_bits\<close>, less
  one (once) if \<open>--x16\<close> was given and unchanged otherwise. When no part was named,
  the address width is the value of \<open>-b\<close> (or the default 8) as it stands, with or
  without \<open>--x16\<close>. \<open>prepare_cmd\<close> reads that field and nothing changes it later.
\<close>

theorem profile_addr_bits:
  assumes "main_profile os = Inr cfg"
  shows "is_x16 (eeprom cfg) = opts_x16 os
    \<and> (case last_type os of
          Some ty \<Rightarrow>
            (\<exists>y. eeprom_find ty = Some y
               \<and> unat (addr_bits (eeprom cfg))
                   = (if opts_x16 os then unat (addr_bits y) - 1 else unat (addr_bits y)))
        | None \<Rightarrow>
            addr_bits (eeprom cfg) = (case last_bits os of Some n \<Rightarrow> word_of_int n | None \<Rightarrow> 8))"
proof -
  from assms obtain v where v: "getopt_loop os main_init = Inr v"
    by (auto simp: main_profile_def split: sum.splits)
  note vars = getopt_loop_vars[OF v]
  have x: "x16 v = opts_x16 os" using vars by (simp add: main_init_def)
  have ts: "type_specified v = (last_type os \<noteq> None)" using vars by (simp add: main_init_def)
  have et: "eeprom_type v = last_type os"
    using vars by (simp add: main_init_def split: option.splits)
  have ab: "addr_bits (eeprom (config v))
      = (case last_bits os of None \<Rightarrow> 8 | Some n \<Rightarrow> word_of_int n)"
    using vars by (simp add: main_init_def split: option.splits)
  show ?thesis
  proof (cases "last_type os")
    case None
    then have "cfg = (config v)\<lparr>eeprom := (eeprom (config v))\<lparr>is_x16 := x16 v\<rparr>,
                              burst_read := burst v\<rparr>"
      using assms v ts by (simp add: main_profile_def Let_def split: if_splits)
    then show ?thesis using None x ab by (simp split: option.splits)
  next
    case (Some ty)
    then obtain y where y: "eeprom_find ty = Some y"
      and c: "eeprom cfg = y\<lparr>is_x16 := x16 v,
                     addr_bits := (if x16 v then addr_bits y - 1 else addr_bits y)\<rparr>"
      using assms v ts et
      by (auto simp: main_profile_def Let_def split: if_splits option.splits)
    have "6 \<le> unat (addr_bits y)" using eeprom_find_bits[OF y] by simp
    then have "unat (addr_bits y - 1) = unat (addr_bits y) - 1"
      by (simp add: unat_sub word_le_nat_alt)
    then show ?thesis using Some y c x by auto
  qed
qed

theorem profile_addr_bits_witness:
  "main_profile [Opt_t ''93C66'', Flag_x16]
     = Inr \<lparr>filename = [], spidev = ''/dev/spidev1.0'',
            eeprom = \<lparr>name = ''93c66'', spi_fd = 0, size_bytes = 512, addr_bits = 8,
                       flags = EEPROM_ORG, is_x16 = True\<rparr>,
            action = NONE, burst_read = False\<rparr>
   \<and> (\<exists>y. eeprom_find ''93C66'' = Some y \<and> unat (addr_bits y) = 9)
   \<and> main_profile [Opt_t ''93C66'']
     = Inr \<lparr>filename = [], spidev = ''/dev/spidev1.0'',
            eeprom = \<lparr>name = ''93c66'', spi_fd = 0, size_bytes = 512, addr_bits = 9,
                       flags = EEPROM_ORG, is_x16 = False\<rparr>,
            action = NONE, burst_read = False\<rparr>"
proof -
  have f: "eeprom_find ''93C66'' = Some (eeprom_types_list ! 0)"
    by code_simp
  have h: "main_profile [Opt_t ''93C66'', Flag_x16]
     = Inr \<lparr>filename = [], spidev = ''/dev/spidev1.0'',
            eeprom = \<lparr>name = ''93c66'', spi_fd = 0, size_bytes = 512, addr_bits = 8,
                       flags = EEPROM_ORG, is_x16 = True\<rparr>,
            action = NONE, burst_read = False\<rparr>"
    by (simp add: main_profile_def main_init_def f eeprom_types_list_def)
  have h8: "main_profile [Opt_t ''93C66'']
     = Inr \<lparr>filename = [], spidev = ''/dev/spidev1.0'',
            eeprom = \<lparr>name = ''93c66'', spi_fd = 0, size_bytes = 512, addr_bits = 9,
                       flags = EEPROM_ORG, is_x16 = False\<rparr>,
            action = NONE, burst_read = False\<rparr>"
    by (simp add: main_profile_def main_init_def f eeprom_types_list_def)
  show ?thesis
    using profile_addr_bits[OF h] profile_addr_bits[OF h8] h h8
    by (simp add: opts_x16_def f eeprom_types_list_def)
qed

theorem explicit_geometry_counterexample:
  "(case main_profile [Opt_b 9, Flag_x16] of
      Inr cfg \<Rightarrow> is_x16 (eeprom cfg) \<and> addr_bits (eeprom cfg) = 9 \<and> sanitize_input cfg = None
    | Inl status \<Rightarrow> False)"
  by (simp add: main_profile_def main_init_def sanitize_input_def
      EEPROM_ORG_def EEPROM_X8_def EEPROM_X16_def)

lemma byte_of_bits_msb: "byte_of_bits (bits_msb w @ rest) = w"
proof -
  have "take 8 (bits_msb w @ rest) = bits_msb w" by (simp add: bits_msb_def)
  then have "byte_of_bits (bits_msb w @ rest) = horner_sum of_bool 2 (map (bit w) [0..<8])"
    by (simp add: byte_of_bits_def bits_msb_def)
  also have "\<dots> = take_bit 8 w" by (rule horner_sum_bit_eq_take_bit)
  also have "\<dots> = w" by (rule take_bit_word_eq_self) simp
  finally show ?thesis .
qed

lemma length_bits_msb: "length (bits_msb w) = 8"
  by (simp add: bits_msb_def)

lemma bytes_of_bits_concat:
  "bytes_of_bits (length ws) (concat (map bits_msb ws) @ rest) = ws"
proof (induction ws)
  case Nil
  then show ?case by simp
next
  case (Cons w ws)
  have "drop 8 (bits_msb w @ concat (map bits_msb ws) @ rest) = concat (map bits_msb ws) @ rest"
    by (simp add: length_bits_msb)
  then show ?case using Cons.IH by (simp add: byte_of_bits_msb)
qed

lemma dev_read_out_aligned: "dev_read_out d a 1 n = map (dev_byte d a) [0..<n]"
proof -
  let ?ws = "map (dev_byte d a) [0..<n]"
  have "[0..<n + 2] = [0..<Suc (Suc n)]" by simp
  also have "\<dots> = [0..<n] @ [n, n + 1]" by simp
  finally have "[0..<n + 2] = [0..<n] @ [n, n + 1]" .
  then have "concat (map (\<lambda>k. bits_msb (dev_byte d a k)) [0..<n + 2])
      = concat (map bits_msb ?ws) @ bits_msb (dev_byte d a n) @ bits_msb (dev_byte d a (n + 1))"
    by (simp add: comp_def)
  then have "dev_read_out d a 1 n
      = bytes_of_bits (length ?ws) (concat (map bits_msb ?ws) @ bits_msb (dev_byte d a n) @ bits_msb (dev_byte d a (n + 1)))"
    by (simp add: dev_read_out_def)
  then show ?thesis by (simp only: bytes_of_bits_concat)
qed

lemma dev_read_out_aligned_Suc: "dev_read_out d a (Suc 0) n = map (dev_byte d a) [0..<n]"
  using dev_read_out_aligned[of d a n] by simp

lemma msb_pos_bounds: "2 ^ k \<le> n \<Longrightarrow> n < 2 ^ Suc k \<Longrightarrow> msb_pos n = k"
proof (induction k arbitrary: n)
  case 0
  then show ?case by (simp add: msb_pos.simps)
next
  case (Suc k)
  have "2 ^ k \<le> n div 2" "n div 2 < 2 ^ Suc k" using Suc.prems by simp_all
  then have "msb_pos (n div 2) = k" by (rule Suc.IH)
  moreover have "\<not> n < 2" using Suc.prems(1) 
    by (metis One_nat_def Suc_1 le_less_trans not_less power_Suc power_one_right one_le_numeral one_le_power  mult.commute mult_le_mono2 nat_mult_1_right )
  ultimately show ?case by (subst msb_pos.simps) simp
qed

lemma dev_decode_header:
  assumes "c < 4" "f < 2 ^ bits" "ab \<le> bits"
  shows "dev_decode ab ((c + 4) * 2 ^ bits + f) = Some (c, f div 2 ^ (bits - ab), bits - ab)"
proof -
  let ?hv = "(c + 4) * 2 ^ bits + f"
  have lo: "2 ^ (bits + 2) \<le> ?hv" by (simp add: add_mult_distrib trans_le_add1)
  have "?hv < (c + 4) * 2 ^ bits + 2 ^ bits" using assms(2) by simp
  also have "\<dots> = (c + 5) * 2 ^ bits" by (simp add: add_mult_distrib)
  also have "\<dots> \<le> 8 * 2 ^ bits" using assms(1) by simp
  finally have hi: "?hv < 2 ^ Suc (bits + 2)" by simp
  have h: "msb_pos ?hv = bits + 2" by (rule msb_pos_bounds[OF lo hi])
  have op: "?hv div 2 ^ bits mod 4 = c" using assms(1,2) by simp
  define P where "P = (2::nat) ^ (bits - ab)"
  have P0: "P \<noteq> 0" by (simp add: P_def)
  have e: "(2::nat) ^ bits = 2 ^ ab * P"
    unfolding P_def using assms(3) by (simp flip: power_add)
  have "?hv = ((c + 4) * 2 ^ ab) * P + f" unfolding e by simp
  then have d1: "?hv div P = (c + 4) * 2 ^ ab + f div P"
    by (simp only: div_mult_self3[OF P0])
  have "f < 2 ^ ab * P" using assms(2) unfolding e .
  then have d2: "f div P < 2 ^ ab" by (rule less_mult_imp_div_less)
  have ad: "?hv div 2 ^ (bits - ab) mod 2 ^ ab = f div 2 ^ (bits - ab)"
    using d1 d2 unfolding P_def by simp
  have nz: "?hv \<noteq> 0" by simp
  show ?thesis
    unfolding dev_decode_def Let_def h using nz op ad assms(3) by simp
qed


lemma sim_header:
  assumes "cmd < 4" "unat (addr_bits e) + unat dm \<le> 13" "abits d = unat (addr_bits e)"
  shows "\<exists>bs. tx_buf (prepare_cmd e cmd addr dm) = Some bs \<and> length bs = 2
    \<and> dev_decode (abits d) (be16 bs)
        = Some (unat cmd, (unat addr mod 2 ^ (unat (addr_bits e) + unat dm)) div 2 ^ unat dm, unat dm)"
proof -
  let ?bits = "unat (addr_bits e) + unat dm"
  obtain bs where bs: "tx_buf (prepare_cmd e cmd addr dm) = Some bs" "length bs = 2"
    "be16 bs div 2 ^ ?bits = unat cmd + 4" "be16 bs mod 2 ^ ?bits = unat addr mod 2 ^ ?bits"
    using prepare_cmd_fields[OF assms(1,2)] by blast
  have "be16 bs = (be16 bs div 2 ^ ?bits) * 2 ^ ?bits + be16 bs mod 2 ^ ?bits"
    by (rule div_mult_mod_eq[symmetric])
  then have v: "be16 bs = (unat cmd + 4) * 2 ^ ?bits + unat addr mod 2 ^ ?bits"
    unfolding bs(3,4) .
  have "dev_decode (unat (addr_bits e)) ((unat cmd + 4) * 2 ^ ?bits + unat addr mod 2 ^ ?bits)
      = Some (unat cmd, (unat addr mod 2 ^ ?bits) div 2 ^ (?bits - unat (addr_bits e)),
              ?bits - unat (addr_bits e))"
    by (rule dev_decode_header) (simp_all add: unat_op4[OF assms(1)])
  then have "dev_decode (abits d) (be16 bs)
      = Some (unat cmd, (unat addr mod 2 ^ ?bits) div 2 ^ unat dm, unat dm)"
    unfolding v assms(3) by simp
  then show ?thesis using bs(1,2) by blast
qed

lemma prepare_cmd_no_rx: "\<not> rx_buf (prepare_cmd e c addr dm)" "len (prepare_cmd e c addr dm) = 2"
  by (simp_all add: prepare_cmd_def Let_def xfer_zero_def)

lemma sim_io_status:
  "sim_io d read_status_msg = (1, [if busy d = 0 then 0xFF else 0], d\<lparr>busy := busy d - 1\<rparr>)"
  by (simp add: sim_io_def read_status_msg_def xfer_zero_def msg_len_def msg_rx_len_def)

lemma sim_io_read:
  assumes "dev_matches e d" "busy d = 0" "unat (addr_bits e) \<le> 12"
  shows "sim_io d (read_data_msg e n addr)
    = (int (2 + n), map (dev_byte d ((unat addr mod 2 ^ (unat (addr_bits e) + 1)) div 2)) [0..<n], d)"
proof -
  have ab: "abits d = unat (addr_bits e)" using assms(1) by (simp add: dev_matches_def)
  have c4: "OPCODE_READ < 4" by (simp add: OPCODE_READ_def)
  have le: "unat (addr_bits e) + unat (1::u8) \<le> 13" using assms(3) by simp
  obtain bs where bs: "tx_buf (prepare_cmd e OPCODE_READ addr 1) = Some bs" "length bs = 2"
    "dev_decode (abits d) (be16 bs)
        = Some (unat OPCODE_READ, (unat addr mod 2 ^ (unat (addr_bits e) + unat (1::u8))) div 2 ^ unat (1::u8), unat (1::u8))"
    using sim_header[OF c4 le ab] by blast
  show ?thesis
    using bs assms(2) prepare_cmd_no_rx[of e OPCODE_READ addr 1]
    by (simp add: sim_io_def read_data_msg_def msg_len_def msg_rx_len_def xfer_zero_def
        OPCODE_READ_def dev_read_out_aligned_Suc)
qed

lemma sim_io_write:
  assumes "dev_matches e d" "busy d = 0" "unat (addr_bits e) \<le> 13" "wen d" "length data = dev_wb d"
  shows "sim_io d (write_data_msg e addr data)
    = (int (2 + length data), [], dev_program d (unat addr mod 2 ^ unat (addr_bits e)) data)"
proof -
  have ab: "abits d = unat (addr_bits e)" using assms(1) by (simp add: dev_matches_def)
  have c4: "OPCODE_WRITE < 4" by (simp add: OPCODE_WRITE_def)
  have le: "unat (addr_bits e) + unat (0::u8) \<le> 13" using assms(3) by simp
  obtain bs where bs: "tx_buf (prepare_cmd e OPCODE_WRITE addr 0) = Some bs" "length bs = 2"
    "dev_decode (abits d) (be16 bs)
        = Some (unat OPCODE_WRITE, (unat addr mod 2 ^ (unat (addr_bits e) + unat (0::u8))) div 2 ^ unat (0::u8), unat (0::u8))"
    using sim_header[OF c4 le ab] by blast
  show ?thesis
    using bs assms(2,4,5) prepare_cmd_no_rx[of e OPCODE_WRITE addr 0]
    by (simp add: sim_io_def write_data_msg_def msg_len_def msg_rx_len_def xfer_zero_def
        OPCODE_WRITE_def)
qed

lemma sim_io_command:
  assumes "dev_matches e d" "busy d = 0" "2 \<le> unat (addr_bits e)" "unat (addr_bits e) \<le> 13"
    "subop < 4"
  shows "sim_io d (send_command_msg e OPCODE_EWEN subop)
    = (2, [],
       if unat subop = 3 then d\<lparr>wen := True\<rparr>
       else if unat subop = 0 then d\<lparr>wen := False\<rparr>
       else if unat subop = 2 \<and> wen d then d\<lparr>mem := (\<lambda>i. 0xFF), busy := tw d\<rparr>
       else d)"
proof -
  let ?ab = "unat (addr_bits e)"
  let ?sub = "(ucast (push_bit (?ab - 2) (ucast subop :: c_int)) :: u16)"
  have ab: "abits d = ?ab" using assms(1) by (simp add: dev_matches_def)
  have c4: "OPCODE_EWEN < 4" by (simp add: OPCODE_EWEN_def)
  have le: "?ab + unat (0::u8) \<le> 13" using assms(4) by simp
  have k: "?ab - 2 \<le> 11" using assms(4) by simp
  have su: "unat ?sub = unat subop * 2 ^ (?ab - 2)" by (rule subcode_unat[OF assms(5) k])
  have "unat subop * 2 ^ (?ab - 2) < 4 * 2 ^ (?ab - 2)"
    using unat_op4[OF assms(5)] by simp
  also have "\<dots> = 2 ^ ?ab" using assms(3) by (rule four_pow)
  finally have lt: "unat ?sub < 2 ^ ?ab" using su by simp
  obtain bs where bs: "tx_buf (prepare_cmd e OPCODE_EWEN ?sub 0) = Some bs" "length bs = 2"
    "dev_decode (abits d) (be16 bs)
        = Some (unat OPCODE_EWEN, (unat ?sub mod 2 ^ (?ab + unat (0::u8))) div 2 ^ unat (0::u8), unat (0::u8))"
    using sim_header[OF c4 le ab] by blast
  have dec: "dev_decode (abits d) (be16 bs) = Some (0, unat subop * 2 ^ (?ab - 2), 0)"
    using bs(3) lt su by (simp add: OPCODE_EWEN_def)
  have sub: "unat subop * 2 ^ (?ab - 2) div 2 ^ (abits d - 2) = unat subop"
    unfolding ab by simp
  show ?thesis
    using bs(1,2) dec sub assms(2) prepare_cmd_no_rx[of e OPCODE_EWEN ?sub 0]
    by (simp add: sim_io_def send_command_msg_def msg_len_def msg_rx_len_def Let_def)
qed

lemma read_status_sim:
  "read_status sim_io e d = ((if busy d = 0 then 0xFF else 0), d\<lparr>busy := busy d - 1\<rparr>)"
  by (simp add: read_status_def sim_io_status)

lemma poll_ready_sim: "poll_ready sim_io e d = Some (d\<lparr>busy := 0\<rparr>)"
proof (induction "busy d" arbitrary: d)
  case 0
  then have "fst (read_status sim_io e d) = 0xff" by (simp add: read_status_sim)
  then have "poll_ready sim_io e d = Some (snd (read_status sim_io e d))"
    by (rule poll_ready_ready)
  then show ?case using 0 by (simp add: read_status_sim)
next
  case (Suc n)
  then have b: "busy d = Suc n" by simp
  then have "fst (read_status sim_io e d) \<noteq> 0xff" by (simp add: read_status_sim)
  then have "poll_ready sim_io e d = poll_ready sim_io e (snd (read_status sim_io e d))"
    by (rule poll_ready_busy)
  also have "\<dots> = poll_ready sim_io e (d\<lparr>busy := n\<rparr>)" using b by (simp add: read_status_sim)
  also have "\<dots> = Some (d\<lparr>busy := n\<rparr>\<lparr>busy := 0\<rparr>)" by (rule Suc.hyps(1)) simp
  finally show ?case by simp
qed

lemma write_data_sim:
  assumes "dev_matches e d" "busy d = 0" "unat (addr_bits e) \<le> 13" "wen d" "length data = dev_wb d"
  shows "write_data sim_io e addr data d
    = (int (2 + length data), dev_program d (unat addr mod 2 ^ unat (addr_bits e)) data)"
  by (simp add: write_data_def sim_io_write[OF assms])

lemma dev_program_fields:
  "org16 (dev_program d a data) = org16 d" "abits (dev_program d a data) = abits d"
  "wen (dev_program d a data) = wen d" "tw (dev_program d a data) = tw d"
  "busy (dev_program d a data) = tw d"
  by (simp_all add: dev_program_def)

lemma word_step_wb: "dev_matches e d \<Longrightarrow> dev_wb d = word_step e"
  by (simp add: dev_matches_def dev_wb_def word_step_def)

text \<open>One round of the programming loop on the simulated device.\<close>

lemma program_loop_sim_step:
  assumes m: "dev_matches e d" and b: "busy d = 0" and w: "wen d"
    and ab: "unat (addr_bits e) \<le> 13"
    and i: "i < unat (size_bytes e)" and fit: "i + word_step e \<le> length data"
  shows "program_loop sim_io e data i d
    = program_loop sim_io e data (i + word_step e)
        ((dev_program d ((i div word_step e) mod 2 ^ unat (addr_bits e))
            (take (word_step e) (drop i data)))\<lparr>busy := 0\<rparr>)"
proof -
  let ?chunk = "take (word_step e) (drop i data)"
  have len: "length ?chunk = dev_wb d" using fit by (simp add: word_step_wb[OF m])
  have "i div word_step e \<le> i" by (rule div_le_dividend)
  moreover have "unat (size_bytes e) < 2 ^ 16"
    using unsigned_less[of "size_bytes e", where 'a=nat] by simp
  ultimately have "i div word_step e < 2 ^ 16"
    using i by linarith
  then have a: "unat (of_nat (i div word_step e) :: u16) = i div word_step e"
    by (simp add: unat_of_nat take_bit_nat_eq_self flip: take_bit_eq_mod)
  have wd: "write_data sim_io e (of_nat (i div word_step e)) ?chunk d
      = (int (2 + length ?chunk),
         dev_program d ((i div word_step e) mod 2 ^ unat (addr_bits e)) ?chunk)"
    using write_data_sim[OF m b ab w len, of "of_nat (i div word_step e)"] unfolding a .
  show ?thesis
    apply (subst program_loop.simps)
    using i fit by (simp add: wd poll_ready_sim)
qed


lemma dvd_step_fits:
  assumes "(w::nat) dvd n" "w dvd i" "i < n"
  shows "i + w \<le> n"
proof -
  obtain q where q: "n = w * q" using assms(1) by (auto elim: dvdE)
  obtain p where p: "i = w * p" using assms(2) by (auto elim: dvdE)
  have "p < q" using assms(3) unfolding q p by simp
  then have "Suc p \<le> q" by simp
  then have "w * Suc p \<le> w * q" by (rule mult_le_mono2)
  then show ?thesis unfolding q p by simp
qed

lemma program_loop_sim:
  assumes "dev_matches e d" "busy d = 0" "wen d" "unat (addr_bits e) \<le> 13"
    "length data = unat (size_bytes e)" "word_step e dvd unat (size_bytes e)"
    "word_step e dvd i"
  shows "\<exists>d'. program_loop sim_io e data i d = Some (Inr (None, d'))
    \<and> dev_matches e d' \<and> busy d' = 0 \<and> wen d' \<and> tw d' = tw d
    \<and> (unat (size_bytes e) \<le> word_step e * 2 ^ unat (addr_bits e) \<longrightarrow>
         (\<forall>k. mem d' k = (if i \<le> k \<and> k < unat (size_bytes e) then data ! k else mem d k)))"
  using assms
proof (induction "unat (size_bytes e) - i" arbitrary: i d rule: less_induct)
  case less
  let ?n = "unat (size_bytes e)"
  let ?w = "word_step e"
  let ?ab = "unat (addr_bits e)"
  show ?case
  proof (cases "i < ?n")
    case False
    then have "program_loop sim_io e data i d = Some (Inr (None, d))"
      by (subst program_loop.simps) simp
    then show ?thesis using False less.prems(1,2,3) by auto
  next
    case True
    have w0: "0 < ?w" by (simp add: word_step_def)
    have fit: "i + ?w \<le> ?n" by (rule dvd_step_fits[OF less.prems(6,7) True])
    then have fit': "i + ?w \<le> length data" using less.prems(5) by simp
    let ?a = "(i div ?w) mod 2 ^ ?ab"
    let ?chunk = "take ?w (drop i data)"
    let ?d2 = "(dev_program d ?a ?chunk)\<lparr>busy := 0\<rparr>"
    have step: "program_loop sim_io e data i d = program_loop sim_io e data (i + ?w) ?d2"
      by (rule program_loop_sim_step[OF less.prems(1,2,3,4) True fit'])
    have m2: "dev_matches e ?d2" using less.prems(1) by (simp add: dev_matches_def dev_program_def)
    have w2: "wen ?d2" using less.prems(3) by (simp add: dev_program_def)
    have dv2: "?w dvd i + ?w" using less.prems(7) by simp
    have "?n - (i + ?w) < ?n - i" using True w0 by simp
    from less.hyps[OF this m2 _ w2 less.prems(4,5,6) dv2]
    obtain d' where d': "program_loop sim_io e data (i + ?w) ?d2 = Some (Inr (None, d'))"
      "dev_matches e d'" "busy d' = 0" "wen d'" "tw d' = tw ?d2"
      "?n \<le> ?w * 2 ^ ?ab \<longrightarrow>
         (\<forall>k. mem d' k = (if i + ?w \<le> k \<and> k < ?n then data ! k else mem ?d2 k))"
      by auto
    have tw: "tw d' = tw d" using d'(5) by (simp add: dev_program_def)
    have memp: "\<forall>k. mem d' k = (if i \<le> k \<and> k < ?n then data ! k else mem d k)"
      if geo: "?n \<le> ?w * 2 ^ ?ab"
    proof
      fix k
      have wb: "dev_wb d = ?w" by (rule word_step_wb[OF less.prems(1)])
      have "i div ?w < 2 ^ ?ab"
      proof -
        have "i < ?w * 2 ^ ?ab" using True geo by simp
        then show ?thesis using w0 by (simp add: less_mult_imp_div_less mult.commute)
      qed
      then have a: "?a = i div ?w" by simp
      have wa: "?w * ?a = i" unfolding a using less.prems(7) by simp
      have m: "mem ?d2 k = (if i \<le> k \<and> k < i + ?w then ?chunk ! (k - i) else mem d k)"
        by (simp add: dev_program_def wb wa)
      have c: "?chunk ! (k - i) = data ! k" if "i \<le> k" "k < i + ?w"
        using that fit' by simp
      from d'(6) geo have "mem d' k = (if i + ?w \<le> k \<and> k < ?n then data ! k else mem ?d2 k)"
        by blast
      then show "mem d' k = (if i \<le> k \<and> k < ?n then data ! k else mem d k)"
        unfolding m using c fit by auto
    qed
    show ?thesis
      unfolding step using d'(1,2,3,4) tw memp by blast
  qed
qed

lemma enable_write_sim:
  assumes "dev_matches e d" "busy d = 0" "2 \<le> unat (addr_bits e)" "unat (addr_bits e) \<le> 13"
  shows "enable_write sim_io e d = (2, d\<lparr>wen := True\<rparr>)"
proof -
  have s: "SUBCODE_EWEN < 4" by (simp add: SUBCODE_EWEN_def)
  show ?thesis
    unfolding enable_write_def send_command_def sim_io_command[OF assms s]
    by (simp add: SUBCODE_EWEN_def)
qed

lemma erase_all_sim:
  assumes "dev_matches e d" "busy d = 0" "2 \<le> unat (addr_bits e)" "unat (addr_bits e) \<le> 13"
  shows "erase_all sim_io e d
    = (2, if wen d then d\<lparr>mem := (\<lambda>i. 0xFF), busy := tw d\<rparr> else d)"
proof -
  have s: "SUBCODE_ERAL < 4" by (simp add: SUBCODE_ERAL_def)
  show ?thesis
    unfolding erase_all_def send_command_def sim_io_command[OF assms s]
    by (simp add: SUBCODE_ERAL_def)
qed

lemma diable_write_sim:
  assumes "dev_matches e d" "busy d = 0" "2 \<le> unat (addr_bits e)" "unat (addr_bits e) \<le> 13"
  shows "diable_write sim_io e d = (2, d\<lparr>wen := False\<rparr>)"
proof -
  have s: "SUBCODE_EWDS < 4" by (simp add: SUBCODE_EWDS_def)
  show ?thesis
    unfolding diable_write_def send_command_def sim_io_command[OF assms s]
    by (simp add: SUBCODE_EWDS_def)
qed

lemma eeprom_write_sim:
  assumes "dev_matches (eeprom cfg) d" "busy d = 0"
    "2 \<le> unat (addr_bits (eeprom cfg))" "unat (addr_bits (eeprom cfg)) \<le> 13"
    "length img = unat (size_bytes (eeprom cfg))"
    "word_step (eeprom cfg) dvd unat (size_bytes (eeprom cfg))"
  shows "\<exists>d'. eeprom_write sim_io cfg (Some img) d = Some (Inr (None, d'))
    \<and> dev_matches (eeprom cfg) d' \<and> busy d' = 0 \<and> wen d'
    \<and> (unat (size_bytes (eeprom cfg)) \<le> word_step (eeprom cfg) * 2 ^ unat (addr_bits (eeprom cfg)) \<longrightarrow>
         (\<forall>k < unat (size_bytes (eeprom cfg)). mem d' k = img ! k))"
proof -
  let ?e = "eeprom cfg"
  let ?d1 = "d\<lparr>wen := True\<rparr>"
  have en: "enable_write sim_io ?e d = (2, ?d1)" by (rule enable_write_sim[OF assms(1,2,3,4)])
  have m1: "dev_matches ?e ?d1" using assms(1) by (simp add: dev_matches_def)
  have b1: "busy ?d1 = 0" using assms(2) by simp
  obtain d' where d': "program_loop sim_io ?e img 0 ?d1 = Some (Inr (None, d'))"
    "dev_matches ?e d'" "busy d' = 0" "wen d'"
    "unat (size_bytes ?e) \<le> word_step ?e * 2 ^ unat (addr_bits ?e) \<longrightarrow>
         (\<forall>k. mem d' k = (if 0 \<le> k \<and> k < unat (size_bytes ?e) then img ! k else mem ?d1 k))"
    using program_loop_sim[OF m1 b1 _ assms(4,5,6), of 0] by auto
  have "eeprom_write sim_io cfg (Some img) d = Some (Inr (None, d'))"
    using assms(5) by (simp add: eeprom_write_def en eeprom_program_array_def d'(1))
  then show ?thesis using d'(2,3,4,5) by auto
qed

lemma store_at_length: "i + length bs \<le> length buf \<Longrightarrow> length (store_at buf i bs) = length buf"
  by (simp add: store_at_def)

lemma store_at_nth:
  "i + length bs \<le> length buf \<Longrightarrow> k < length buf \<Longrightarrow>
   store_at buf i bs ! k
     = (if k < i then buf ! k else if k < i + length bs then bs ! (k - i) else buf ! k)"
  by (auto simp: store_at_def nth_append)

lemma read_loop_sim:
  assumes "dev_matches (eeprom cfg) d" "busy d = 0" "unat (addr_bits (eeprom cfg)) \<le> 12"
    "length buf = unat (size_bytes (eeprom cfg))"
    "read_step cfg dvd unat (size_bytes (eeprom cfg))" "read_step cfg dvd i"
  shows "\<exists>buf'. read_loop sim_io cfg i buf d = Inr (None, buf', d)
    \<and> length buf' = unat (size_bytes (eeprom cfg))
    \<and> (\<forall>k < unat (size_bytes (eeprom cfg)). buf' ! k =
          (if k < i then buf ! k
           else dev_byte d (((k div read_step cfg * read_step cfg)
                               mod 2 ^ (unat (addr_bits (eeprom cfg)) + 1)) div 2)
                  (k mod read_step cfg)))"
  using assms
proof (induction "unat (size_bytes (eeprom cfg)) - i" arbitrary: i buf rule: less_induct)
  case less
  let ?e = "eeprom cfg"
  let ?n = "unat (size_bytes ?e)"
  let ?st = "read_step cfg"
  let ?ab = "unat (addr_bits ?e)"
  show ?case
  proof (cases "i < ?n")
    case False
    then have "read_loop sim_io cfg i buf d = Inr (None, buf, d)"
      by (subst read_loop.simps) simp
    then show ?thesis using False less.prems(4) by auto
  next
    case True
    have st0: "0 < ?st"
    proof (rule ccontr)
      assume "\<not> 0 < ?st"
      then have "?n = 0" using less.prems(5) by simp
      then show False using True by simp
    qed
    have fit: "i + ?st \<le> ?n" by (rule dvd_step_fits[OF less.prems(5,6) True])
    have "?n < 2 ^ 16" using unsigned_less[of "size_bytes ?e", where 'a=nat] by simp
    then have "i < 2 ^ 16" using True by linarith
    then have a: "unat (of_nat i :: u16) = i"
      by (simp add: unat_of_nat take_bit_nat_eq_self flip: take_bit_eq_mod)
    let ?rx = "map (dev_byte d ((i mod 2 ^ (?ab + 1)) div 2)) [0..<?st]"
    have rd: "read_data sim_io ?e ?st (of_nat i) d = (int (2 + ?st), ?rx, d)"
      using sim_io_read[OF less.prems(1,2,3), of ?st "of_nat i"] unfolding a
      by (simp add: read_data_def)
    let ?buf2 = "store_at buf i ?rx"
    have step: "read_loop sim_io cfg i buf d = read_loop sim_io cfg (i + ?st) ?buf2 d"
      apply (subst read_loop.simps)
      using True fit by (simp add: rd)
    have l2: "length ?buf2 = ?n" using fit less.prems(4) by (simp add: store_at_length)
    have dv2: "?st dvd i + ?st" using less.prems(6) by simp
    have "?n - (i + ?st) < ?n - i" using True st0 by simp
    from less.hyps[OF this less.prems(1,2,3) l2 less.prems(5) dv2]
    obtain buf' where buf': "read_loop sim_io cfg (i + ?st) ?buf2 d = Inr (None, buf', d)"
      "length buf' = ?n"
      "\<forall>k < ?n. buf' ! k =
          (if k < i + ?st then ?buf2 ! k
           else dev_byte d (((k div ?st * ?st) mod 2 ^ (?ab + 1)) div 2) (k mod ?st))"
      by auto
    have "buf' ! k =
          (if k < i then buf ! k
           else dev_byte d (((k div ?st * ?st) mod 2 ^ (?ab + 1)) div 2) (k mod ?st))"
      if k: "k < ?n" for k
    proof (cases "i \<le> k \<and> k < i + ?st")
      case False
      then show ?thesis
        using buf'(3) k fit less.prems(4) by (auto simp: store_at_nth)
    next
      case True
      obtain p where p: "i = ?st * p" using less.prems(6) by (auto elim: dvdE)
      have "k - i < ?st" using True by auto
      have kd: "k div ?st = p"
      proof -
        have "k = (k - i) + p * ?st" using True p by (simp add: mult.commute)
        then have "k div ?st = (k - i) div ?st + p" using st0 by (metis div_mult_self1 less_numeral_extra(3) add.commute div_mult_self3)
        then show ?thesis using \<open>k - i < ?st\<close> by simp
      qed
      have km: "k mod ?st = k - i"
      proof -
        have "k = (k - i) + p * ?st" using True p by (simp add: mult.commute)
        then have "k mod ?st = (k - i) mod ?st" by (metis mod_mult_self1)
        then show ?thesis using \<open>k - i < ?st\<close> by simp
      qed
      have "buf' ! k = ?buf2 ! k" using buf'(3) k True by simp
      also have "\<dots> = ?rx ! (k - i)"
        using True k fit less.prems(4) by (simp add: store_at_nth)
      also have "\<dots> = dev_byte d ((i mod 2 ^ (?ab + 1)) div 2) (k - i)"
        using \<open>k - i < ?st\<close> by simp
      finally show ?thesis using True kd km p by (simp add: mult.commute)
    qed
    then show ?thesis unfolding step using buf'(1,2) by blast
  qed
qed

lemma eeprom_read_sim:
  assumes "dev_matches (eeprom cfg) d" "busy d = 0" "unat (addr_bits (eeprom cfg)) \<le> 12"
    "read_step cfg dvd unat (size_bytes (eeprom cfg))"
  shows "\<exists>out. eeprom_read sim_io cfg True heap d = Inr (None, Some out, d)
    \<and> length out = unat (size_bytes (eeprom cfg))
    \<and> (\<forall>k < unat (size_bytes (eeprom cfg)). out ! k =
          dev_byte d (((k div read_step cfg * read_step cfg)
                               mod 2 ^ (unat (addr_bits (eeprom cfg)) + 1)) div 2)
                  (k mod read_step cfg))"
proof -
  let ?n = "unat (size_bytes (eeprom cfg))"
  have l: "length (map heap [0..<?n]) = ?n" by simp
  obtain out where out: "read_loop sim_io cfg 0 (map heap [0..<?n]) d = Inr (None, out, d)"
    "length out = ?n"
    "\<forall>k < ?n. out ! k =
          (if k < 0 then map heap [0..<?n] ! k
           else dev_byte d (((k div read_step cfg * read_step cfg)
                               mod 2 ^ (unat (addr_bits (eeprom cfg)) + 1)) div 2)
                  (k mod read_step cfg))"
    using read_loop_sim[OF assms(1,2,3) l assms(4), of 0 ] by auto
  have "eeprom_read sim_io cfg True heap d = Inr (None, Some out, d)"
    by (simp add: eeprom_read_def out(1))
  then show ?thesis using out(2,3) by auto
qed

lemma dev_byte_linear:
  assumes "k < dev_wb d * 2 ^ abits d"
  shows "dev_byte d 0 k = mem d k"
proof -
  have w0: "0 < dev_wb d" by (simp add: dev_wb_def)
  have "k div dev_wb d < 2 ^ abits d"
    using assms w0 by (simp add: less_mult_imp_div_less mult.commute)
  then show ?thesis by (simp add: dev_byte_def)
qed

lemma eeprom_read_sim_burst:
  assumes "dev_matches (eeprom cfg) d" "busy d = 0" "unat (addr_bits (eeprom cfg)) \<le> 12"
    "burst_read cfg"
  shows "eeprom_read sim_io cfg True heap d
    = Inr (None, Some (map (dev_byte d 0) [0..<unat (size_bytes (eeprom cfg))]), d)"
proof -
  let ?n = "unat (size_bytes (eeprom cfg))"
  have st: "read_step cfg = ?n" using assms(4) by (simp add: read_step_def)
  have dv: "read_step cfg dvd ?n" unfolding st by simp
  obtain out where out: "eeprom_read sim_io cfg True heap d = Inr (None, Some out, d)"
    "length out = ?n"
    "\<forall>k < ?n. out ! k =
          dev_byte d (((k div read_step cfg * read_step cfg)
                               mod 2 ^ (unat (addr_bits (eeprom cfg)) + 1)) div 2)
                  (k mod read_step cfg)"
    using eeprom_read_sim[OF assms(1,2,3) dv] by blast
  have "out = map (dev_byte d 0) [0..<?n]"
  proof (rule nth_equalityI)
    show "length out = length (map (dev_byte d 0) [0..<?n])" using out(2) by simp
  next
    fix k assume "k < length out"
    then have k: "k < ?n" using out(2) by simp
    then show "out ! k = map (dev_byte d 0) [0..<?n] ! k"
      using out(3) by (simp add: st)
  qed
  then show ?thesis using out(1) by simp
qed

lemma eeprom_read_sim_x16:
  assumes "dev_matches (eeprom cfg) d" "busy d = 0" "unat (addr_bits (eeprom cfg)) \<le> 12"
    "is_x16 (eeprom cfg)" "\<not> burst_read cfg" "2 dvd unat (size_bytes (eeprom cfg))"
    "unat (size_bytes (eeprom cfg)) \<le> 2 * 2 ^ unat (addr_bits (eeprom cfg))"
  shows "eeprom_read sim_io cfg True heap d
    = Inr (None, Some (map (mem d) [0..<unat (size_bytes (eeprom cfg))]), d)"
proof -
  let ?n = "unat (size_bytes (eeprom cfg))"
  let ?ab = "unat (addr_bits (eeprom cfg))"
  have st: "read_step cfg = 2" using assms(4,5) by (simp add: read_step_def)
  have dv: "read_step cfg dvd ?n" unfolding st by (rule assms(6))
  have wb: "dev_wb d = 2" and abd: "abits d = ?ab"
    using assms(1,4) by (simp_all add: dev_matches_def dev_wb_def)
  obtain out where out: "eeprom_read sim_io cfg True heap d = Inr (None, Some out, d)"
    "length out = ?n"
    "\<forall>k < ?n. out ! k =
          dev_byte d (((k div read_step cfg * read_step cfg)
                               mod 2 ^ (?ab + 1)) div 2)
                  (k mod read_step cfg)"
    using eeprom_read_sim[OF assms(1,2,3) dv] by blast
  have "out = map (mem d) [0..<?n]"
  proof (rule nth_equalityI)
    show "length out = length (map (mem d) [0..<?n])" using out(2) by simp
  next
    fix k assume "k < length out"
    then have k: "k < ?n" using out(2) by simp
    have "k div 2 * 2 \<le> k" by simp
    then have "k div 2 * 2 < 2 ^ (?ab + 1)" using k assms(7) by simp
    then have b: "(k div 2 * 2) mod 2 ^ (?ab + 1) div 2 = k div 2" by simp
    have "k div 2 < 2 ^ ?ab" using k assms(7) by simp
    then have "dev_byte d (k div 2) (k mod 2) = mem d (2 * (k div 2) + k mod 2)"
      by (simp add: dev_byte_def wb abd)
    then have e: "dev_byte d (k div 2) (k mod 2) = mem d k" by simp
    have "out ! k = dev_byte d (((k div 2 * 2) mod 2 ^ (?ab + 1)) div 2) (k mod 2)"
      using out(3) k unfolding st by blast
    then have "out ! k = mem d k" unfolding b e .
    then show "out ! k = map (mem d) [0..<?n] ! k"
      using k by simp
  qed
  then show ?thesis using out(1) by simp
qed

lemma eeprom_read_sim_x8_stepped:
  assumes "dev_matches (eeprom cfg) d" "busy d = 0" "unat (addr_bits (eeprom cfg)) \<le> 12"
    "\<not> is_x16 (eeprom cfg)" "\<not> burst_read cfg"
    "unat (size_bytes (eeprom cfg)) \<le> 2 ^ unat (addr_bits (eeprom cfg))"
  shows "eeprom_read sim_io cfg True heap d
    = Inr (None, Some (map (\<lambda>k. mem d (k div 2)) [0..<unat (size_bytes (eeprom cfg))]), d)"
proof -
  let ?n = "unat (size_bytes (eeprom cfg))"
  let ?ab = "unat (addr_bits (eeprom cfg))"
  have st: "read_step cfg = 1" using assms(4,5) by (simp add: read_step_def)
  have dv: "read_step cfg dvd ?n" unfolding st by simp
  have wb: "dev_wb d = 1" and abd: "abits d = ?ab"
    using assms(1,4) by (simp_all add: dev_matches_def dev_wb_def)
  obtain out where out: "eeprom_read sim_io cfg True heap d = Inr (None, Some out, d)"
    "length out = ?n"
    "\<forall>k < ?n. out ! k =
          dev_byte d (((k div read_step cfg * read_step cfg)
                               mod 2 ^ (?ab + 1)) div 2)
                  (k mod read_step cfg)"
    using eeprom_read_sim[OF assms(1,2,3) dv] by blast
  have "out = map (\<lambda>k. mem d (k div 2)) [0..<?n]"
  proof (rule nth_equalityI)
    show "length out = length (map (\<lambda>k. mem d (k div 2)) [0..<?n])" using out(2) by simp
  next
    fix k assume "k < length out"
    then have k: "k < ?n" using out(2) by simp
    then have "k < 2 ^ (?ab + 1)" using assms(6) by simp
    then have b: "k mod 2 ^ (?ab + 1) = k" by simp
    have "k div 2 < 2 ^ ?ab" using k assms(6) by simp
    then have e: "dev_byte d (k div 2) 0 = mem d (k div 2)"
      by (simp add: dev_byte_def wb abd)
    have k1: "k div 1 * 1 = k" "k mod 1 = 0" by simp_all
    have "out ! k = dev_byte d (((k div 1 * 1) mod 2 ^ (?ab + 1)) div 2) (k mod 1)"
      using out(3) k unfolding st by blast
    then have "out ! k = mem d (k div 2)" unfolding k1 b e .
    then show "out ! k = map (\<lambda>k. mem d (k div 2)) [0..<?n] ! k"
      using k by simp
  qed
  then show ?thesis using out(1) by simp
qed

lemma sanitize_input_ok:
  assumes "sanitize_input cfg = None"
  shows "5 \<le> unat (addr_bits (eeprom cfg))" "unat (addr_bits (eeprom cfg)) \<le> 9"
    "0 < unat (size_bytes (eeprom cfg))"
proof -
  have a: "\<not> addr_bits (eeprom cfg) < 5" "\<not> addr_bits (eeprom cfg) > 9" "size_bytes (eeprom cfg) \<noteq> 0"
    using assms by (auto simp: sanitize_input_def Let_def split: if_splits)
  show "5 \<le> unat (addr_bits (eeprom cfg))" using a(1) by (simp add: word_less_nat_alt)
  show "unat (addr_bits (eeprom cfg)) \<le> 9" using a(2) by (simp add: word_less_nat_alt)
  show "0 < unat (size_bytes (eeprom cfg))" using a(3) by (simp add: unat_gt_0)
qed

text \<open>Profiles as \<open>main\<close> makes them from a command line, and devices to go with them.\<close>

definition profile_of :: "opt list \<Rightarrow> eeprom_cfg" where
  "profile_of os = (case main_profile os of Inr cfg \<Rightarrow> cfg | Inl status \<Rightarrow> config main_init)"

definition blank_device :: "bool \<Rightarrow> nat \<Rightarrow> nat \<Rightarrow> device" where
  "blank_device org ab t = \<lparr>org16 = org, abits = ab, mem = (\<lambda>i. 0xFF), wen = False, busy = 0, tw = t\<rparr>"

definition counting_device :: "bool \<Rightarrow> nat \<Rightarrow> device" where
  "counting_device org ab = \<lparr>org16 = org, abits = ab, mem = (\<lambda>i. of_nat i), wen = False, busy = 0, tw = 0\<rparr>"

lemma profile_93c46_x16:
  "profile_of [Opt_t ''93c46'', Flag_x16]
     = \<lparr>filename = [], spidev = ''/dev/spidev1.0'',
        eeprom = \<lparr>name = ''93c46'', spi_fd = 0, size_bytes = 128, addr_bits = 6,
                   flags = EEPROM_ORG, is_x16 = True\<rparr>,
        action = NONE, burst_read = False\<rparr>"
proof -
  have f: "eeprom_find ''93c46'' = Some (eeprom_types_list ! 2)" by code_simp
  show ?thesis
    by (simp add: profile_of_def main_profile_def main_init_def f eeprom_types_list_def)
qed

lemma profile_93c46_x8:
  "profile_of [Opt_t ''93c46'']
     = \<lparr>filename = [], spidev = ''/dev/spidev1.0'',
        eeprom = \<lparr>name = ''93c46'', spi_fd = 0, size_bytes = 128, addr_bits = 7,
                   flags = EEPROM_ORG, is_x16 = False\<rparr>,
        action = NONE, burst_read = False\<rparr>"
proof -
  have f: "eeprom_find ''93c46'' = Some (eeprom_types_list ! 2)" by code_simp
  show ?thesis
    by (simp add: profile_of_def main_profile_def main_init_def f eeprom_types_list_def)
qed

lemma profile_custom_64_5:
  "profile_of [Opt_b 5, Opt_s 64, Flag_burst]
     = \<lparr>filename = [], spidev = ''/dev/spidev1.0'',
        eeprom = \<lparr>name = ''custom'', spi_fd = 0, size_bytes = 64, addr_bits = 5,
                   flags = EEPROM_ORG, is_x16 = False\<rparr>,
        action = NONE, burst_read = True\<rparr>"
  by (simp add: profile_of_def main_profile_def main_init_def)

text \<open>
  C2. On the simulated device that a valid profile describes (same organisation and
  address width, idle), with a word count that the address width can reach
  (\<open>size / word size \<le> 2 ^ addr_bits\<close>) and a size that is a whole number of words:
  \<open>eeprom_write\<close> of a full-size image returns, and \<open>eeprom_read\<close> afterwards gives
  back exactly the image, in 16-bit mode (stepped or burst) and in 8-bit mode with a
  burst read.
\<close>

theorem write_then_read_back:
  assumes valid: "sanitize_input cfg = None"
    and whole: "word_step (eeprom cfg) dvd unat (size_bytes (eeprom cfg))"
    and reach: "unat (size_bytes (eeprom cfg))
                  \<le> word_step (eeprom cfg) * 2 ^ unat (addr_bits (eeprom cfg))"
    and mode: "is_x16 (eeprom cfg) \<or> burst_read cfg"
    and dev: "dev_matches (eeprom cfg) d" "busy d = 0"
    and img: "length img = unat (size_bytes (eeprom cfg))"
  shows "\<exists>d1. eeprom_write sim_io cfg (Some img) d = Some (Inr (None, d1))
    \<and> eeprom_read sim_io cfg True heap d1 = Inr (None, Some img, d1)"
proof -
  let ?e = "eeprom cfg"
  let ?n = "unat (size_bytes ?e)"
  let ?ab = "unat (addr_bits ?e)"
  note ok = sanitize_input_ok[OF valid]
  have ab2: "2 \<le> ?ab" and ab13: "?ab \<le> 13" and ab12: "?ab \<le> 12" using ok by simp_all
  obtain d1 where d1: "eeprom_write sim_io cfg (Some img) d = Some (Inr (None, d1))"
    "dev_matches ?e d1" "busy d1 = 0"
    "\<forall>k < ?n. mem d1 k = img ! k"
    using eeprom_write_sim[OF dev ab2 ab13 img whole] reach by blast
  have m: "map (mem d1) [0..<?n] = img"
    by (rule nth_equalityI) (use d1(4) img in simp_all)
  have "eeprom_read sim_io cfg True heap d1 = Inr (None, Some img, d1)"
  proof (cases "burst_read cfg")
    case True
    have wb: "dev_wb d1 = word_step ?e" by (rule word_step_wb[OF d1(2)])
    have abd: "abits d1 = ?ab" using d1(2) by (simp add: dev_matches_def)
    have "map (dev_byte d1 0) [0..<?n] = map (mem d1) [0..<?n]"
      using reach by (simp add: dev_byte_linear wb abd)
    then show ?thesis
      using eeprom_read_sim_burst[OF d1(2,3) ab12 True, of heap] m by simp
  next
    case False
    then have x: "is_x16 ?e" using mode by blast
    then have ws: "word_step ?e = 2" by (simp add: word_step_def)
    have dv: "2 dvd ?n" using whole unfolding ws .
    have r: "?n \<le> 2 * 2 ^ ?ab" using reach unfolding ws .
    show ?thesis
      using eeprom_read_sim_x16[OF d1(2,3) ab12 x False dv r, of heap] m by simp
  qed
  then show ?thesis using d1(1) by blast
qed


theorem write_then_read_back_witness:
  "sanitize_input (profile_of [Opt_t ''93c46'', Flag_x16]) = None
   \<and> word_step (eeprom (profile_of [Opt_t ''93c46'', Flag_x16]))
        dvd unat (size_bytes (eeprom (profile_of [Opt_t ''93c46'', Flag_x16])))
   \<and> unat (size_bytes (eeprom (profile_of [Opt_t ''93c46'', Flag_x16])))
        \<le> word_step (eeprom (profile_of [Opt_t ''93c46'', Flag_x16]))
            * 2 ^ unat (addr_bits (eeprom (profile_of [Opt_t ''93c46'', Flag_x16])))
   \<and> is_x16 (eeprom (profile_of [Opt_t ''93c46'', Flag_x16]))
   \<and> dev_matches (eeprom (profile_of [Opt_t ''93c46'', Flag_x16])) (blank_device True 6 3)
   \<and> busy (blank_device True 6 3) = 0
   \<and> length (replicate 128 (0xAA::u8))
        = unat (size_bytes (eeprom (profile_of [Opt_t ''93c46'', Flag_x16])))
   \<and> (\<exists>d1. eeprom_write sim_io (profile_of [Opt_t ''93c46'', Flag_x16])
               (Some (replicate 128 0xAA)) (blank_device True 6 3) = Some (Inr (None, d1))
          \<and> eeprom_read sim_io (profile_of [Opt_t ''93c46'', Flag_x16]) True (\<lambda>i. 0) d1
               = Inr (None, Some (replicate 128 0xAA), d1))"
proof -
  let ?P = "profile_of [Opt_t ''93c46'', Flag_x16]"
  have h1: "sanitize_input ?P = None"
    by (simp add: profile_93c46_x16 sanitize_input_def EEPROM_ORG_def EEPROM_X8_def EEPROM_X16_def)
  have h2: "word_step (eeprom ?P) dvd unat (size_bytes (eeprom ?P))"
    by (simp add: profile_93c46_x16 word_step_def)
  have h3: "unat (size_bytes (eeprom ?P)) \<le> word_step (eeprom ?P) * 2 ^ unat (addr_bits (eeprom ?P))"
    by (simp add: profile_93c46_x16 word_step_def)
  have h4: "is_x16 (eeprom ?P)" by (simp add: profile_93c46_x16)
  then have h4': "is_x16 (eeprom ?P) \<or> burst_read ?P" by simp
  have h5: "dev_matches (eeprom ?P) (blank_device True 6 3)"
    by (simp add: profile_93c46_x16 dev_matches_def blank_device_def)
  have h6: "busy (blank_device True 6 3) = 0" by (simp add: blank_device_def)
  have h7: "length (replicate 128 (0xAA::u8)) = unat (size_bytes (eeprom ?P))"
    by (simp add: profile_93c46_x16)
  show ?thesis
    using write_then_read_back[OF h1 h2 h3 h4' h5 h6 h7, of "\<lambda>i. 0"] h1 h2 h3 h4 h5 h6 h7
    by blast
qed

theorem write_then_read_back_counterexample:
  "sanitize_input (profile_of [Opt_b 5, Opt_s 64, Flag_burst]) = None
   \<and> dev_matches (eeprom (profile_of [Opt_b 5, Opt_s 64, Flag_burst])) (blank_device False 5 1)
   \<and> length (map of_nat [0..<64] :: u8 list)
        = unat (size_bytes (eeprom (profile_of [Opt_b 5, Opt_s 64, Flag_burst])))
   \<and> (case eeprom_write sim_io (profile_of [Opt_b 5, Opt_s 64, Flag_burst])
               (Some (map of_nat [0..<64])) (blank_device False 5 1) of
         Some (Inr (r, d1)) \<Rightarrow>
           (case eeprom_read sim_io (profile_of [Opt_b 5, Opt_s 64, Flag_burst]) True (\<lambda>i. 0) d1 of
              Inr (r2, Some out, d2) \<Rightarrow> out \<noteq> map of_nat [0..<64]
            | _ \<Rightarrow> False)
       | _ \<Rightarrow> False)"
proof -
  let ?P = "profile_of [Opt_b 5, Opt_s 64, Flag_burst]"
  let ?D = "blank_device False 5 1"
  let ?I = "map of_nat [0..<64] :: u8 list"
  have e: "eeprom ?P = \<lparr>name = ''custom'', spi_fd = 0, size_bytes = 64, addr_bits = 5,
                   flags = EEPROM_ORG, is_x16 = False\<rparr>" and b: "burst_read ?P"
    by (simp_all add: profile_custom_64_5)
  have h1: "sanitize_input ?P = None"
    by (simp add: e sanitize_input_def EEPROM_ORG_def EEPROM_X8_def EEPROM_X16_def)
  have m: "dev_matches (eeprom ?P) ?D" by (simp add: e dev_matches_def blank_device_def)
  have bz: "busy ?D = 0" by (simp add: blank_device_def)
  have l: "length ?I = unat (size_bytes (eeprom ?P))" by (simp add: e)
  have ab2: "2 \<le> unat (addr_bits (eeprom ?P))" and ab13: "unat (addr_bits (eeprom ?P)) \<le> 13"
    and ab12: "unat (addr_bits (eeprom ?P)) \<le> 12"
    by (simp_all add: e)
  have w: "word_step (eeprom ?P) dvd unat (size_bytes (eeprom ?P))"
    by (simp add: e word_step_def)
  obtain d1 where d1: "eeprom_write sim_io ?P (Some ?I) ?D = Some (Inr (None, d1))"
    "dev_matches (eeprom ?P) d1" "busy d1 = 0"
    using eeprom_write_sim[OF m bz ab2 ab13 l w] by blast
  have rd: "eeprom_read sim_io ?P True (\<lambda>i. 0) d1
      = Inr (None, Some (map (dev_byte d1 0) [0..<64]), d1)"
    using eeprom_read_sim_burst[OF d1(2,3) ab12 b, of "\<lambda>i. 0"] by (simp add: e)
  have wb: "dev_wb d1 = 1" and abd: "abits d1 = 5"
    using d1(2) by (simp_all add: e dev_matches_def dev_wb_def)
  have same: "dev_byte d1 0 32 = dev_byte d1 0 0"
    by (simp add: dev_byte_def wb abd)
  have ne: "map (dev_byte d1 0) [0..<64] \<noteq> ?I"
  proof
    assume eq: "map (dev_byte d1 0) [0..<64] = ?I"
    have "map (dev_byte d1 0) [0..<64] ! 32 = ?I ! 32" "map (dev_byte d1 0) [0..<64] ! 0 = ?I ! 0"
      by (simp_all only: eq)
    then have "dev_byte d1 0 32 = (32::u8)" "dev_byte d1 0 0 = (0::u8)" by simp_all
    then show False using same by simp
  qed
  have c: "(case eeprom_write sim_io ?P (Some ?I) ?D of
         Some (Inr (r, d1)) \<Rightarrow>
           (case eeprom_read sim_io ?P True (\<lambda>i. 0) d1 of
              Inr (r2, Some out, d2) \<Rightarrow> out \<noteq> ?I
            | _ \<Rightarrow> False)
       | _ \<Rightarrow> False)"
    unfolding d1(1) using ne by (simp add: rd)
  show ?thesis
    using h1 m l c by (intro conjI)
qed

text \<open>
  C6. The 93c46 profile in 8-bit mode against a matching device whose byte \<open>k\<close>
  holds the value \<open>k\<close>: the stepped read gives every byte of the first half twice
  (0, 0, 1, 1, ...), the burst read gives the array (0, 1, 2, 3, ...).
\<close>

theorem stepped_read_x8_differs_from_burst:
  "eeprom_read sim_io (profile_of [Opt_t ''93c46'']) True (\<lambda>i. 0) (counting_device False 7)
     = Inr (None, Some (map (\<lambda>k. of_nat (k div 2)) [0..<128]), counting_device False 7)
   \<and> eeprom_read sim_io ((profile_of [Opt_t ''93c46''])\<lparr>burst_read := True\<rparr>) True (\<lambda>i. 0)
       (counting_device False 7)
     = Inr (None, Some (map of_nat [0..<128]), counting_device False 7)
   \<and> (map (\<lambda>k. of_nat (k div 2)) [0..<128] :: u8 list) \<noteq> map of_nat [0..<128]"
proof -
  let ?P = "profile_of [Opt_t ''93c46'']"
  let ?B = "?P\<lparr>burst_read := True\<rparr>"
  let ?D = "counting_device False 7"
  have e: "eeprom ?P = \<lparr>name = ''93c46'', spi_fd = 0, size_bytes = 128, addr_bits = 7,
                   flags = EEPROM_ORG, is_x16 = False\<rparr>" and nb: "\<not> burst_read ?P"
    by (simp_all add: profile_93c46_x8)
  have m: "dev_matches (eeprom ?P) ?D" by (simp add: e dev_matches_def counting_device_def)
  have mB: "dev_matches (eeprom ?B) ?D" using m by simp
  have bz: "busy ?D = 0" by (simp add: counting_device_def)
  have ab12: "unat (addr_bits (eeprom ?P)) \<le> 12" by (simp add: e)
  have ab12B: "unat (addr_bits (eeprom ?B)) \<le> 12" by (simp add: e)
  have x8: "\<not> is_x16 (eeprom ?P)" by (simp add: e)
  have geo: "unat (size_bytes (eeprom ?P)) \<le> 2 ^ unat (addr_bits (eeprom ?P))" by (simp add: e)
  have bB: "burst_read ?B" by simp
  have mem: "mem ?D = of_nat" by (simp add: counting_device_def)
  have s: "eeprom_read sim_io ?P True (\<lambda>i. 0) ?D
     = Inr (None, Some (map (\<lambda>k. of_nat (k div 2)) [0..<128]), ?D)"
    using eeprom_read_sim_x8_stepped[OF m bz ab12 x8 nb geo, of "\<lambda>i. 0"] by (simp add: e mem)
  have lin: "map (dev_byte ?D 0) [0..<128] = map of_nat [0..<128]"
    by (simp add: dev_byte_linear dev_wb_def counting_device_def)
  have b: "eeprom_read sim_io ?B True (\<lambda>i. 0) ?D
     = Inr (None, Some (map of_nat [0..<128]), ?D)"
    using eeprom_read_sim_burst[OF mB bz ab12B bB, of "\<lambda>i. 0"] lin by (simp add: e)
  have ne: "(map (\<lambda>k. of_nat (k div 2)) [0..<128] :: u8 list) \<noteq> map of_nat [0..<128]"
  proof
    assume eq: "(map (\<lambda>k. of_nat (k div 2)) [0..<128] :: u8 list) = map of_nat [0..<128]"
    have "(map (\<lambda>k. of_nat (k div 2)) [0..<128] :: u8 list) ! 1 = map of_nat [0..<128] ! 1"
      by (simp only: eq)
    then show False by simp
  qed
  show ?thesis using s b ne by blast
qed

text \<open>
  Reading a bus record. \<open>ev_status\<close> is what \<open>read_status\<close> returns for a status
  read; a write event is a header followed by one transfer that sends data.
\<close>

definition ev_status :: "bus_event \<Rightarrow> u8" where
  "ev_status ev = (case snd (snd ev) of [] \<Rightarrow> 0 | b # bs \<Rightarrow> b)"

definition ready_poll :: "bus_event \<Rightarrow> bool" where
  "ready_poll ev = (fst ev = read_status_msg \<and> ev_status ev = 0xff)"

definition busy_poll :: "bus_event \<Rightarrow> bool" where
  "busy_poll ev = (fst ev = read_status_msg \<and> ev_status ev \<noteq> 0xff)"

definition write_event :: "bus_event \<Rightarrow> bool" where
  "write_event ev = (case fst ev of [h, x] \<Rightarrow> tx_buf x \<noteq> None | _ \<Rightarrow> False)"

text \<open>
  The order of events the write operation keeps, as a two-state machine over the
  record. Not waiting: the next event is a write; if it failed it is the last event,
  otherwise the machine waits. Waiting: the next event is a status read; one that
  gives \<open>0xFF\<close> ends the wait. The record may only end when the machine is not
  waiting.
\<close>

fun polled_from :: "bool \<Rightarrow> bus_event list \<Rightarrow> bool" where
  "polled_from waiting [] = (\<not> waiting)"
| "polled_from waiting (ev # evs) =
    (if waiting then
       (if ready_poll ev then polled_from False evs
        else busy_poll ev \<and> polled_from True evs)
     else write_event ev \<and> (if fst (snd ev) < 0 then evs = [] else polled_from True evs))"

lemma read_status_traced:
  "read_status (traced io) e (s, log)
    = (fst (read_status io e s),
       (snd (read_status io e s),
        log @ [(read_status_msg, fst (io s read_status_msg), fst (snd (io s read_status_msg)))]))"
  by (simp add: read_status_def traced_def split: prod.splits)

lemma read_status_traced_status:
  "ev_status (read_status_msg, fst (io s read_status_msg), fst (snd (io s read_status_msg)))
     = fst (read_status io e s)"
  by (simp add: read_status_def ev_status_def split: prod.splits)

text \<open>What a finished poll loop adds to the record: busy status reads, then a ready one.\<close>

lemma poll_ready_traced:
  assumes "poll_ready (traced io) e (s, log) = Some (s', log')"
  shows "\<exists>new r. log' = log @ new @ [r] \<and> (\<forall>ev \<in> set new. busy_poll ev) \<and> ready_poll r"
proof -
  have "\<forall>io s log s' log'. io1 = traced io \<and> st = (s, log) \<and> y = (s', log') \<longrightarrow>
          (\<exists>new r. log' = log @ new @ [r] \<and> (\<forall>ev \<in> set new. busy_poll ev) \<and> ready_poll r)"
    if "poll_ready io1 e1 st = Some y" for io1 :: "('a \<times> bus_event list) spi_bus" and e1 st y
    using that
  proof (induction rule: poll_ready.raw_induct[rotated 1, consumes 1])
    case (1 poll io1 e1 st y)
    show ?case
    proof (intro allI impI, elim conjE)
      fix io s log s' log'
      assume io1: "io1 = traced io" and st: "st = (s, log)" and y: "y = (s', log')"
      let ?ev = "(read_status_msg, fst (io s read_status_msg), fst (snd (io s read_status_msg)))"
      let ?s1 = "snd (read_status io e1 s)"
      have rs: "read_status io1 e1 st = (fst (read_status io e1 s), (?s1, log @ [?ev]))"
        unfolding io1 st by (rule read_status_traced)
      have evs: "ev_status ?ev = fst (read_status io e1 s)" by (rule read_status_traced_status)
      show "\<exists>new r. log' = log @ new @ [r] \<and> (\<forall>ev \<in> set new. busy_poll ev) \<and> ready_poll r"
      proof (cases "fst (read_status io e1 s) = 0xff")
        case True
        then have "y = (?s1, log @ [?ev])" using "1.hyps" by (simp add: rs)
        then have "log' = log @ [] @ [?ev]" using y by simp
        moreover have "ready_poll ?ev" using True evs by (simp add: ready_poll_def)
        ultimately show ?thesis by (metis empty_iff empty_set)
      next
        case False
        then have "poll io1 e1 (?s1, log @ [?ev]) = Some y" using "1.hyps" by (simp add: rs)
        from "1.IH"[OF this] io1 y
        obtain new r where n: "log' = (log @ [?ev]) @ new @ [r]"
          "\<forall>ev \<in> set new. busy_poll ev" "ready_poll r"
          by blast
        have b: "busy_poll ?ev" using False evs by (simp add: busy_poll_def)
        have "log' = log @ (?ev # new) @ [r]" using n(1) by simp
        moreover have "\<forall>ev \<in> set (?ev # new). busy_poll ev" using n(2) b by simp
        ultimately show ?thesis using n(3) by blast
      qed
    qed
  qed
  then show ?thesis using assms by blast
qed


lemma polled_after_polls:
  "\<forall>ev \<in> set new. busy_poll ev \<Longrightarrow> ready_poll r \<Longrightarrow>
   polled_from True (new @ r # rest) = polled_from False rest"
  by (induction new) (auto simp: busy_poll_def ready_poll_def)

lemma write_data_traced:
  "write_data (traced io) e a data (s, log)
    = (fst (write_data io e a data s),
       (snd (write_data io e a data s),
        log @ [(write_data_msg e a data, fst (io s (write_data_msg e a data)),
                fst (snd (io s (write_data_msg e a data))))]))"
  by (simp add: write_data_def traced_def split: prod.splits)

lemma write_data_ret: "fst (write_data io e a data s) = fst (io s (write_data_msg e a data))"
  by (simp add: write_data_def split: prod.splits)

lemma write_event_msg: "write_event (write_data_msg e a data, ret, rx)"
  by (simp add: write_event_def write_data_msg_def xfer_zero_def)

text \<open>What a finished programming loop adds to the record.\<close>

lemma program_loop_traced:
  assumes "program_loop (traced io) e data i (s, log) = Some (Inr (r, (s', log')))"
  shows "\<exists>new. log' = log @ new \<and> polled_from False new
    \<and> (\<forall>ev \<in> set new. fst ev = read_status_msg \<or> (\<exists>a d. fst ev = write_data_msg e a d))"
  using assms
proof (induction "unat (size_bytes e) - i" arbitrary: i s log rule: less_induct)
  case less
  let ?n = "unat (size_bytes e)"
  let ?w = "word_step e"
  show ?case
  proof (cases "i < ?n")
    case False
    then have "program_loop (traced io) e data i (s, log) = Some (Inr (None, (s, log)))"
      by (subst program_loop.simps) simp
    then have "log' = log @ []" using less.prems by simp
    then show ?thesis by (metis empty_iff empty_set polled_from.simps(1))
  next
    case True
    let ?a = "of_nat (i div ?w) :: u16"
    let ?chunk = "take ?w (drop i data)"
    let ?ret = "fst (io s (write_data_msg e ?a ?chunk))"
    define wev :: bus_event
      where "wev = (write_data_msg e ?a ?chunk, ?ret, fst (snd (io s (write_data_msg e ?a ?chunk))))"
    let ?s1 = "snd (write_data io e ?a ?chunk s)"
    have wd: "write_data (traced io) e ?a ?chunk (s, log) = (?ret, (?s1, log @ [wev]))"
      by (simp add: write_data_traced write_data_ret wev_def)
    have fit: "\<not> length data < i + ?w"
    proof
      assume "length data < i + ?w"
      then have "program_loop (traced io) e data i (s, log) = Some (Inl Buffer_Overrun)"
        using True by (subst program_loop.simps) simp
      then show False using less.prems by simp
    qed
    have we: "write_event wev" unfolding wev_def by (rule write_event_msg)
    have wm: "\<exists>a d. fst wev = write_data_msg e a d" unfolding wev_def by auto
    have wr: "fst (snd wev) = ?ret" by (simp add: wev_def)
    show ?thesis
    proof (cases "?ret < 0")
      case neg: True
      have "program_loop (traced io) e data i (s, log)
          = Some (Inr (Some EXIT_FAILURE, (?s1, log @ [wev])))"
        apply (subst program_loop.simps)
        using True fit neg by (simp add: wd)
      then have l: "log' = log @ [wev]" using less.prems by simp
      have "polled_from False [wev]" using we neg wr by simp
      then show ?thesis using l wm neg wr
        by (intro exI[of _ "[wev]"]) simp
    next
      case nonneg: False
      have unf: "program_loop (traced io) e data i (s, log)
          = (case poll_ready (traced io) e (?s1, log @ [wev]) of
               None \<Rightarrow> None
             | Some s2 \<Rightarrow> program_loop (traced io) e data (i + ?w) s2)"
        apply (subst program_loop.simps)
        using True fit nonneg by (simp add: wd)
      obtain s2 l2 where p: "poll_ready (traced io) e (?s1, log @ [wev]) = Some (s2, l2)"
        using less.prems unfolding unf by (cases "poll_ready (traced io) e (?s1, log @ [wev])") auto
      obtain pn pr where pn: "l2 = (log @ [wev]) @ pn @ [pr]"
        "\<forall>ev \<in> set pn. busy_poll ev" "ready_poll pr"
        using poll_ready_traced[OF p] by blast
      have rec: "program_loop (traced io) e data (i + ?w) (s2, l2) = Some (Inr (r, (s', log')))"
        using less.prems unfolding unf p by simp
      have w0: "0 < ?w" by (simp add: word_step_def)
      have "?n - (i + ?w) < ?n - i" using True w0 by simp
      from less.hyps[OF this rec]
      obtain new where new: "log' = l2 @ new" "polled_from False new"
        "\<forall>ev \<in> set new. fst ev = read_status_msg \<or> (\<exists>a d. fst ev = write_data_msg e a d)"
        by blast
      let ?all = "wev # pn @ pr # new"
      have l: "log' = log @ ?all" using new(1) pn(1) by simp
      have "polled_from True (pn @ pr # new)"
        using polled_after_polls[OF pn(2,3), of new] new(2) by simp
      then have pf: "polled_from False ?all" using we nonneg wr by simp
      have polls: "\<forall>ev \<in> set (pn @ [pr]). fst ev = read_status_msg"
        using pn(2,3) by (auto simp: busy_poll_def ready_poll_def)
      have "\<forall>ev \<in> set ?all. fst ev = read_status_msg \<or> (\<exists>a d. fst ev = write_data_msg e a d)"
        using polls new(3) wm by auto
      then show ?thesis using l pf by blast
    qed
  qed
qed



lemma poll_ready_traced_ex:
  assumes "poll_ready io e s = Some s'"
  shows "\<exists>log'. poll_ready (traced io) e (s, log) = Some (s', log')"
proof -
  have "\<forall>log. \<exists>log'. poll_ready (traced io) e (s, log) = Some (s', log')"
    using assms
  proof (induction rule: poll_ready.raw_induct[rotated 1, consumes 1])
    case (1 poll io e s y)
    show ?case
    proof
      fix log
      let ?ev = "(read_status_msg, fst (io s read_status_msg), fst (snd (io s read_status_msg)))"
      let ?s1 = "snd (read_status io e s)"
      have rs: "read_status (traced io) e (s, log) = (fst (read_status io e s), (?s1, log @ [?ev]))"
        by (rule read_status_traced)
      show "\<exists>log'. poll_ready (traced io) e (s, log) = Some (y, log')"
      proof (cases "fst (read_status io e s) = 0xff")
        case True
        then have "y = ?s1" using "1.hyps" by (simp split: prod.splits)
        moreover have "poll_ready (traced io) e (s, log) = Some (?s1, log @ [?ev])"
          using poll_ready_ready[of "traced io" e "(s, log)"] True by (simp add: rs)
        ultimately show ?thesis by blast
      next
        case False
        then have "poll io e ?s1 = Some y" using "1.hyps" by (simp split: prod.splits)
        from "1.IH"[OF this] obtain log' where
          "poll_ready (traced io) e (?s1, log @ [?ev]) = Some (y, log')" by blast
        moreover have "poll_ready (traced io) e (s, log)
            = poll_ready (traced io) e (?s1, log @ [?ev])"
          using poll_ready_busy[of "traced io" e "(s, log)"] False by (simp add: rs)
        ultimately show ?thesis by simp
      qed
    qed
  qed
  then show ?thesis by blast
qed

lemma program_loop_traced_ex:
  assumes "program_loop io e data i s = Some (Inr (r, s'))"
  shows "\<exists>log'. program_loop (traced io) e data i (s, log) = Some (Inr (r, (s', log')))"
  using assms
proof (induction "unat (size_bytes e) - i" arbitrary: i s log rule: less_induct)
  case less
  let ?n = "unat (size_bytes e)"
  let ?w = "word_step e"
  show ?case
  proof (cases "i < ?n")
    case False
    then have "program_loop io e data i s = Some (Inr (None, s))"
      "program_loop (traced io) e data i (s, log) = Some (Inr (None, (s, log)))"
      by (subst program_loop.simps, simp)+
    then show ?thesis using less.prems by simp
  next
    case True
    let ?a = "of_nat (i div ?w) :: u16"
    let ?chunk = "take ?w (drop i data)"
    obtain ret s1 where wdp: "write_data io e ?a ?chunk s = (ret, s1)"
      by (cases "write_data io e ?a ?chunk s")
    obtain l1 where wd: "write_data (traced io) e ?a ?chunk (s, log) = (ret, (s1, l1))"
      by (simp add: write_data_traced wdp)
    have fit: "\<not> length data < i + ?w"
    proof
      assume "length data < i + ?w"
      then have "program_loop io e data i s = Some (Inl Buffer_Overrun)"
        using True by (subst program_loop.simps) simp
      then show False using less.prems by simp
    qed
    show ?thesis
    proof (cases "ret < 0")
      case neg: True
      have "program_loop io e data i s = Some (Inr (Some EXIT_FAILURE, s1))"
        apply (subst program_loop.simps)
        using True fit neg by (simp add: wdp)
      moreover have "program_loop (traced io) e data i (s, log)
          = Some (Inr (Some EXIT_FAILURE, (s1, l1)))"
        apply (subst program_loop.simps)
        using True fit neg by (simp add: wd)
      ultimately show ?thesis using less.prems by simp
    next
      case nonneg: False
      have unf: "program_loop io e data i s
          = (case poll_ready io e s1 of None \<Rightarrow> None
             | Some s2 \<Rightarrow> program_loop io e data (i + ?w) s2)"
        apply (subst program_loop.simps)
        using True fit nonneg by (simp add: wdp)
      have unft: "program_loop (traced io) e data i (s, log)
          = (case poll_ready (traced io) e (s1, l1) of None \<Rightarrow> None
             | Some s2 \<Rightarrow> program_loop (traced io) e data (i + ?w) s2)"
        apply (subst program_loop.simps)
        using True fit nonneg by (simp add: wd)
      obtain s2 where p: "poll_ready io e s1 = Some s2"
        using less.prems unfolding unf by (cases "poll_ready io e s1") auto
      then have rec: "program_loop io e data (i + ?w) s2 = Some (Inr (r, s'))"
        using less.prems unfolding unf by simp
      obtain l2 where pt: "poll_ready (traced io) e (s1, l1) = Some (s2, l2)"
        using poll_ready_traced_ex[OF p] by blast
      have w0: "0 < ?w" by (simp add: word_step_def)
      have "?n - (i + ?w) < ?n - i" using True w0 by simp
      from less.hyps[OF this rec, of l2] show ?thesis unfolding unft pt by simp
    qed
  qed
qed




text \<open>
  The messages the three operations send: a status read, the write-enable and the
  erase-all command, and the two-transfer messages of \<open>read_data\<close> and \<open>write_data\<close>.
\<close>

definition op_msg :: "eeprom \<Rightarrow> spi_ioc_transfer list \<Rightarrow> bool" where
  "op_msg e m =
    (m = read_status_msg \<or> m = send_command_msg e OPCODE_EWEN SUBCODE_EWEN
     \<or> m = send_command_msg e OPCODE_EWEN SUBCODE_ERAL \<or> length m = 2)"

lemma send_command_msg_differs:
  assumes "subop < 4" "subop \<noteq> 0" "2 \<le> unat (addr_bits e)" "unat (addr_bits e) \<le> 13"
  shows "send_command_msg e OPCODE_EWEN subop \<noteq> send_command_msg e OPCODE_EWEN SUBCODE_EWDS"
proof
  assume eq: "send_command_msg e OPCODE_EWEN subop = send_command_msg e OPCODE_EWEN SUBCODE_EWDS"
  have o: "OPCODE_EWEN < 4" by (simp add: OPCODE_EWEN_def)
  have z: "SUBCODE_EWDS < 4" by (simp add: SUBCODE_EWDS_def)
  obtain x bs where a: "send_command_msg e OPCODE_EWEN subop = [x]" "tx_buf x = Some bs"
    "(be16 bs mod 2 ^ unat (addr_bits e)) div 2 ^ (unat (addr_bits e) - 2) = unat subop"
    using send_command_msg_field[OF o assms(1,3,4)] by blast
  obtain y cs where b: "send_command_msg e OPCODE_EWEN SUBCODE_EWDS = [y]" "tx_buf y = Some cs"
    "(be16 cs mod 2 ^ unat (addr_bits e)) div 2 ^ (unat (addr_bits e) - 2) = unat SUBCODE_EWDS"
    using send_command_msg_field[OF o z assms(3,4)] by blast
  have "x = y" using eq a(1) b(1) by simp
  then have "bs = cs" using a(2) b(2) by simp
  then have "unat subop = unat SUBCODE_EWDS" using a(3) b(3) by simp
  then have "unat subop = 0" by (simp add: SUBCODE_EWDS_def)
  then show False using assms(2) by (simp add: unat_eq_0)
qed

lemma op_msg_not_ewds:
  assumes "op_msg e m" "2 \<le> unat (addr_bits e)" "unat (addr_bits e) \<le> 13"
  shows "m \<noteq> send_command_msg e OPCODE_EWEN SUBCODE_EWDS"
proof -
  have l: "length (send_command_msg e OPCODE_EWEN SUBCODE_EWDS) = 1"
    by (simp add: send_command_msg_def Let_def)
  have t: "read_status_msg \<noteq> send_command_msg e OPCODE_EWEN SUBCODE_EWDS"
    by (simp add: read_status_msg_def send_command_msg_def Let_def prepare_cmd_def xfer_zero_def)
  have en: "send_command_msg e OPCODE_EWEN SUBCODE_EWEN \<noteq> send_command_msg e OPCODE_EWEN SUBCODE_EWDS"
    by (rule send_command_msg_differs[OF _ _ assms(2,3)]) (simp_all add: SUBCODE_EWEN_def)
  have er: "send_command_msg e OPCODE_EWEN SUBCODE_ERAL \<noteq> send_command_msg e OPCODE_EWEN SUBCODE_EWDS"
    by (rule send_command_msg_differs[OF _ _ assms(2,3)]) (simp_all add: SUBCODE_ERAL_def)
  show ?thesis using assms(1) l t en er unfolding op_msg_def by auto
qed

lemma send_command_traced:
  "send_command (traced io) e op subop (s, log)
    = (fst (send_command io e op subop s),
       (snd (send_command io e op subop s),
        log @ [(send_command_msg e op subop, fst (io s (send_command_msg e op subop)),
                fst (snd (io s (send_command_msg e op subop))))]))"
  by (simp add: send_command_def traced_def split: prod.splits)

lemma read_data_traced:
  "read_data (traced io) e n a (s, log)
    = (fst (read_data io e n a s), fst (snd (read_data io e n a s)),
       (snd (snd (read_data io e n a s)),
        log @ [(read_data_msg e n a, fst (read_data io e n a s), fst (snd (read_data io e n a s)))]))"
  by (simp add: read_data_def traced_def split: prod.splits)

lemma read_loop_traced:
  assumes "read_loop (traced io) cfg i buf (s, log) = Inr (r, buf', (s', log'))"
  shows "\<exists>new. log' = log @ new \<and> (\<forall>ev \<in> set new. length (fst ev) = 2)"
  using assms
proof (induction "unat (size_bytes (eeprom cfg)) - i" arbitrary: i buf s log rule: less_induct)
  case less
  let ?n = "unat (size_bytes (eeprom cfg))"
  let ?st = "read_step cfg"
  show ?case
  proof (cases "i < ?n")
    case False
    then have "read_loop (traced io) cfg i buf (s, log) = Inr (None, buf, (s, log))"
      by (subst read_loop.simps) simp
    then have "log' = log @ []" using less.prems by simp
    then show ?thesis by (metis empty_iff empty_set)
  next
    case True
    have fit: "\<not> ?n < i + ?st"
    proof
      assume "?n < i + ?st"
      then have "read_loop (traced io) cfg i buf (s, log) = Inl Buffer_Overrun"
        using True by (subst read_loop.simps) simp
      then show False using less.prems by simp
    qed
    have st0: "0 < ?st"
      using True by (auto simp: read_step_def)
    obtain ret rx s1 where rd: "read_data io (eeprom cfg) ?st (of_nat i) s = (ret, rx, s1)"
      by (cases "read_data io (eeprom cfg) ?st (of_nat i) s")
    define ev :: bus_event where "ev = (read_data_msg (eeprom cfg) ?st (of_nat i), ret, rx)"
    have rdt: "read_data (traced io) (eeprom cfg) ?st (of_nat i) (s, log)
        = (ret, rx, (s1, log @ [ev]))"
      by (simp add: read_data_traced rd ev_def)
    have l2: "length (fst ev) = 2" by (simp add: ev_def read_data_msg_def)
    show ?thesis
    proof (cases "ret < 0")
      case neg: True
      have "read_loop (traced io) cfg i buf (s, log)
          = Inr (Some EXIT_FAILURE, buf, (s1, log @ [ev]))"
        apply (subst read_loop.simps)
        using True fit neg by (simp add: rdt)
      then have "log' = log @ [ev]" using less.prems by simp
      then show ?thesis using l2 by (intro exI[of _ "[ev]"]) simp
    next
      case nonneg: False
      have "read_loop (traced io) cfg i buf (s, log)
          = read_loop (traced io) cfg (i + ?st) (store_at buf i (take ?st rx)) (s1, log @ [ev])"
        apply (subst read_loop.simps)
        using True fit nonneg by (simp add: rdt)
      then have rec: "read_loop (traced io) cfg (i + ?st) (store_at buf i (take ?st rx))
          (s1, log @ [ev]) = Inr (r, buf', (s', log'))"
        using less.prems by simp
      have "?n - (i + ?st) < ?n - i" using True st0 by simp
      from less.hyps[OF this rec] obtain new where
        new: "log' = (log @ [ev]) @ new" "\<forall>e \<in> set new. length (fst e) = 2" by blast
      have "log' = log @ (ev # new)" using new(1) by simp
      moreover have "\<forall>e \<in> set (ev # new). length (fst e) = 2" using new(2) l2 by simp
      ultimately show ?thesis by blast
    qed
  qed
qed

lemma send_command_msg_fd:
  "send_command_msg (e\<lparr>spi_fd := x\<rparr>) op subop = send_command_msg e op subop"
  by (simp add: send_command_msg_def prepare_cmd_def)

lemma op_msg_fd: "op_msg (e\<lparr>spi_fd := x\<rparr>) m = op_msg e m"
  by (simp add: op_msg_def send_command_msg_fd)

lemma dev_matches_fd: "dev_matches (e\<lparr>spi_fd := x\<rparr>) d = dev_matches e d"
  by (simp add: dev_matches_def)

text \<open>The messages of a finished read, write and erase operation.\<close>

lemma eeprom_read_traced_msgs:
  assumes "eeprom_read (traced io) cfg fopen_ok heap (s, []) = Inr (r, outf, (s', log))"
  shows "\<forall>ev \<in> set log. op_msg (eeprom cfg) (fst ev)"
proof (cases fopen_ok)
  case False
  then have "log = []" using assms by (simp add: eeprom_read_def)
  then show ?thesis by simp
next
  case True
  let ?buf = "map heap [0..<unat (size_bytes (eeprom cfg))]"
  obtain rl bufl sl logl where
    rl: "read_loop (traced io) cfg 0 ?buf (s, []) = Inr (rl, bufl, (sl, logl))"
    using assms True
    by (cases "read_loop (traced io) cfg 0 ?buf (s, [])")
       (auto simp: eeprom_read_def)
  have "log = logl"
    using assms True rl by (cases rl) (simp_all add: eeprom_read_def)
  moreover obtain new where "logl = [] @ new" "\<forall>ev \<in> set new. length (fst ev) = 2"
    using read_loop_traced[OF rl] by blast
  ultimately show ?thesis by (simp add: op_msg_def)
qed

lemma enable_write_traced:
  "enable_write (traced io) e (s, log)
    = (fst (enable_write io e s),
       (snd (enable_write io e s),
        log @ [(send_command_msg e OPCODE_EWEN SUBCODE_EWEN,
                fst (io s (send_command_msg e OPCODE_EWEN SUBCODE_EWEN)),
                fst (snd (io s (send_command_msg e OPCODE_EWEN SUBCODE_EWEN))))]))"
  by (simp add: enable_write_def send_command_traced)

lemma erase_all_traced:
  "erase_all (traced io) e (s, log)
    = (fst (erase_all io e s),
       (snd (erase_all io e s),
        log @ [(send_command_msg e OPCODE_EWEN SUBCODE_ERAL,
                fst (io s (send_command_msg e OPCODE_EWEN SUBCODE_ERAL)),
                fst (snd (io s (send_command_msg e OPCODE_EWEN SUBCODE_ERAL))))]))"
  by (simp add: erase_all_def send_command_traced)

lemma diable_write_traced:
  "diable_write (traced io) e (s, log)
    = (fst (diable_write io e s),
       (snd (diable_write io e s),
        log @ [(send_command_msg e OPCODE_EWEN SUBCODE_EWDS,
                fst (io s (send_command_msg e OPCODE_EWEN SUBCODE_EWDS)),
                fst (snd (io s (send_command_msg e OPCODE_EWEN SUBCODE_EWDS))))]))"
  by (simp add: diable_write_def send_command_traced)

lemma eeprom_write_traced_msgs:
  assumes "eeprom_write (traced io) cfg file (s, []) = Some (Inr (r, (s', log)))"
  shows "\<forall>ev \<in> set log. op_msg (eeprom cfg) (fst ev)"
proof (cases "file")
  case None
  then have "log = []" using assms by (simp add: eeprom_write_def)
  then show ?thesis by simp
next
  case (Some buf)
  let ?e = "eeprom cfg"
  let ?m = "send_command_msg ?e OPCODE_EWEN SUBCODE_EWEN"
  define ev :: bus_event where "ev = (?m, fst (io s ?m), fst (snd (io s ?m)))"
  define ret where "ret = fst (enable_write io ?e s)"
  define s1 where "s1 = snd (enable_write io ?e s)"
  have en: "enable_write (traced io) ?e (s, []) = (ret, (s1, [ev]))"
    by (simp add: enable_write_traced ev_def ret_def s1_def)
  have oe: "op_msg ?e (fst ev)" by (simp add: ev_def op_msg_def)
  show ?thesis
  proof (cases "length buf \<noteq> unat (size_bytes ?e)")
    case True
    then have "log = []" using assms Some by (simp add: eeprom_write_def)
    then show ?thesis by simp
  next
    case len: False
    show ?thesis
    proof (cases "ret < 0")
      case True
      then have "log = [ev]" using assms Some len by (simp add: eeprom_write_def en)
      then show ?thesis using oe by simp
    next
      case False
      obtain rp sp logp where
        pl: "program_loop (traced io) ?e buf 0 (s1, [ev]) = Some (Inr (rp, (sp, logp)))"
        and lg: "log = logp"
        using assms Some len False
        by (auto simp: eeprom_write_def en eeprom_program_array_def
            split: option.splits sum.splits)
      obtain new where new: "logp = [ev] @ new"
        "\<forall>x \<in> set new. fst x = read_status_msg \<or> (\<exists>a d. fst x = write_data_msg ?e a d)"
        using program_loop_traced[OF pl] by blast
      have "op_msg ?e (fst x)" if "x \<in> set new" for x
        using new(2) that by (auto simp: op_msg_def write_data_msg_def)
      then show ?thesis using lg new(1) oe by auto
    qed
  qed
qed

lemma eeprom_erase_traced_msgs:
  assumes "eeprom_erase (traced io) cfg (s, []) = (r, (s', log))"
  shows "\<forall>ev \<in> set log. op_msg (eeprom cfg) (fst ev)"
proof -
  let ?e = "eeprom cfg"
  let ?m = "send_command_msg ?e OPCODE_EWEN SUBCODE_EWEN"
  let ?n = "send_command_msg ?e OPCODE_EWEN SUBCODE_ERAL"
  define ev :: bus_event where "ev = (?m, fst (io s ?m), fst (snd (io s ?m)))"
  define ret where "ret = fst (enable_write io ?e s)"
  define s1 where "s1 = snd (enable_write io ?e s)"
  define ew :: bus_event where "ew = (?n, fst (io s1 ?n), fst (snd (io s1 ?n)))"
  define retw where "retw = fst (erase_all io ?e s1)"
  define sw where "sw = snd (erase_all io ?e s1)"
  have en: "enable_write (traced io) ?e (s, []) = (ret, (s1, [ev]))"
    by (simp add: enable_write_traced ev_def ret_def s1_def)
  have er: "erase_all (traced io) ?e (s1, [ev]) = (retw, (sw, [ev, ew]))"
    by (simp add: erase_all_traced ew_def retw_def sw_def)
  have oe: "op_msg ?e (fst ev)" by (simp add: ev_def op_msg_def)
  have ow: "op_msg ?e (fst ew)" by (simp add: ew_def op_msg_def)
  have "log = [ev] \<or> log = [ev, ew]"
    using assms by (auto simp: eeprom_erase_def en er split: if_splits)
  then show ?thesis using oe ow by auto
qed

lemma eeprom_run_traced_msgs:
  assumes "eeprom_run (traced io) cfg spif file fopen_ok heap (s, []) = Some (Inr (r, outf, (s', log)))"
  shows "\<forall>ev \<in> set log. op_msg (eeprom cfg) (fst ev)"
proof (cases "spif < 0")
  case True
  then have "log = []" using assms by (simp add: eeprom_run_def)
  then show ?thesis by simp
next
  case False
  define cfgr where "cfgr = cfg\<lparr>eeprom := (eeprom cfg)\<lparr>spi_fd := spif\<rparr>\<rparr>"
  have e: "eeprom cfgr = (eeprom cfg)\<lparr>spi_fd := spif\<rparr>" and a: "action cfgr = action cfg"
    by (simp_all add: cfgr_def)
  have run: "eeprom_run (traced io) cfg spif file fopen_ok heap (s, [])
      = (if action cfgr = EEPROM_READ then Some (eeprom_read (traced io) cfgr fopen_ok heap (s, []))
        else if action cfgr = EEPROM_WRITE then
          (case eeprom_write (traced io) cfgr file (s, []) of
             None \<Rightarrow> None
           | Some (Inl f) \<Rightarrow> Some (Inl f)
           | Some (Inr (r, s')) \<Rightarrow> Some (Inr (r, None, s')))
        else if action cfgr = EEPROM_ERASE then
          (case eeprom_erase (traced io) cfgr (s, []) of (r, s') \<Rightarrow> Some (Inr (r, None, s')))
        else Some (Inr (Some 0, None, (s, []))))"
    using False by (simp add: eeprom_run_def Let_def cfgr_def)
  have "\<forall>ev \<in> set log. op_msg (eeprom cfgr) (fst ev)"
  proof (cases "action cfgr")
    case NONE
    then have "log = []" using assms unfolding run by simp
    then show ?thesis by simp
  next
    case EEPROM_READ
    then have "eeprom_read (traced io) cfgr fopen_ok heap (s, []) = Inr (r, outf, (s', log))"
      using assms unfolding run by simp
    then show ?thesis by (rule eeprom_read_traced_msgs)
  next
    case EEPROM_ERASE
    then have "eeprom_erase (traced io) cfgr (s, []) = (r, (s', log))"
      using assms unfolding run by (simp split: prod.splits)
    then show ?thesis by (rule eeprom_erase_traced_msgs)
  next
    case EEPROM_WRITE
    then have "eeprom_write (traced io) cfgr file (s, []) = Some (Inr (r, (s', log)))"
      using assms unfolding run by (simp split: option.splits sum.splits prod.splits)
    then show ?thesis by (rule eeprom_write_traced_msgs)
  qed
  then show ?thesis by (simp add: e op_msg_fd)
qed

text \<open>On the simulated device a finished programming loop leaves programming enabled.\<close>

lemma program_loop_sim_wen:
  assumes "program_loop sim_io e data i d = Some (Inr (r, d'))"
    "dev_matches e d" "busy d = 0" "wen d" "unat (addr_bits e) \<le> 13"
  shows "wen d'"
  using assms
proof (induction "unat (size_bytes e) - i" arbitrary: i d rule: less_induct)
  case less
  let ?n = "unat (size_bytes e)"
  let ?w = "word_step e"
  show ?case
  proof (cases "i < ?n")
    case False
    then have "program_loop sim_io e data i d = Some (Inr (None, d))"
      by (subst program_loop.simps) simp
    then show ?thesis using less.prems(1,4) by simp
  next
    case True
    have w0: "0 < ?w" by (simp add: word_step_def)
    have fit: "i + ?w \<le> length data"
    proof (rule ccontr)
      assume "\<not> i + ?w \<le> length data"
      then have "program_loop sim_io e data i d = Some (Inl Buffer_Overrun)"
        using True by (subst program_loop.simps) simp
      then show False using less.prems(1) by simp
    qed
    let ?d1 = "(dev_program d ((i div ?w) mod 2 ^ unat (addr_bits e))
            (take ?w (drop i data)))\<lparr>busy := 0\<rparr>"
    have step: "program_loop sim_io e data i d = program_loop sim_io e data (i + ?w) ?d1"
      by (rule program_loop_sim_step[OF less.prems(2,3,4,5) True fit])
    have rec: "program_loop sim_io e data (i + ?w) ?d1 = Some (Inr (r, d'))"
      using less.prems(1) unfolding step .
    have m: "dev_matches e ?d1" using less.prems(2) by (simp add: dev_matches_def dev_program_def)
    have w: "wen ?d1" using less.prems(4) by (simp add: dev_program_def)
    have "?n - (i + ?w) < ?n - i" using True w0 by simp
    from less.hyps[OF this rec m _ w less.prems(5)] show ?thesis by simp
  qed
qed

lemma eeprom_write_sim_wen:
  assumes "eeprom_write sim_io cfg file d = Some (Inr (None, d'))"
    "dev_matches (eeprom cfg) d" "busy d = 0"
    "2 \<le> unat (addr_bits (eeprom cfg))" "unat (addr_bits (eeprom cfg)) \<le> 13"
  shows "wen d'"
proof (cases "file")
  case None
  then have "eeprom_write sim_io cfg file d = Some (Inr (Some EXIT_FAILURE, d))"
    by (simp add: eeprom_write_def)
  then show ?thesis using assms(1) by simp
next
  case (Some buf)
  let ?e = "eeprom cfg"
  let ?d1 = "d\<lparr>wen := True\<rparr>"
  have en: "enable_write sim_io ?e d = (2, ?d1)" by (rule enable_write_sim[OF assms(2,3,4,5)])
  show ?thesis
  proof (cases "length buf \<noteq> unat (size_bytes ?e)")
    case True
    then have "eeprom_write sim_io cfg file d = Some (Inr (Some EXIT_FAILURE, d))"
      using Some by (simp add: eeprom_write_def)
    then show ?thesis using assms(1) by simp
  next
    case False
    have "eeprom_write sim_io cfg file d
      = (case program_loop sim_io ?e buf 0 ?d1 of
           None \<Rightarrow> None
         | Some (Inl f) \<Rightarrow> Some (Inl f)
         | Some (Inr (r, s')) \<Rightarrow> Some (Inr (None, s')))"
      using Some False by (simp add: eeprom_write_def en eeprom_program_array_def)
    then obtain rp where pl: "program_loop sim_io ?e buf 0 ?d1 = Some (Inr (rp, d'))"
      using assms(1) by (auto split: option.splits sum.splits)
    have m: "dev_matches ?e ?d1" using assms(2) by (simp add: dev_matches_def)
    have b: "busy ?d1 = 0" using assms(3) by simp
    have w: "wen ?d1" by simp
    show ?thesis by (rule program_loop_sim_wen[OF pl m b w assms(5)])
  qed
qed

lemma eeprom_erase_sim_wen:
  assumes "dev_matches (eeprom cfg) d" "busy d = 0"
    "2 \<le> unat (addr_bits (eeprom cfg))" "unat (addr_bits (eeprom cfg)) \<le> 13"
  shows "wen (snd (eeprom_erase sim_io cfg d))"
proof -
  let ?e = "eeprom cfg"
  let ?d1 = "d\<lparr>wen := True\<rparr>"
  have en: "enable_write sim_io ?e d = (2, ?d1)" by (rule enable_write_sim[OF assms])
  have m: "dev_matches ?e ?d1" using assms(1) by (simp add: dev_matches_def)
  have b: "busy ?d1 = 0" using assms(2) by simp
  have er: "erase_all sim_io ?e ?d1 = (2, ?d1\<lparr>mem := (\<lambda>i. 0xFF), busy := tw ?d1\<rparr>)"
    using erase_all_sim[OF m b assms(3,4)] by simp
  show ?thesis by (simp add: eeprom_erase_def en er)
qed

lemma eeprom_run_sim_wen:
  assumes "eeprom_run sim_io cfg spif file fopen_ok heap d = Some (Inr (None, outd, d'))"
    "action cfg = EEPROM_WRITE \<or> action cfg = EEPROM_ERASE"
    "dev_matches (eeprom cfg) d" "busy d = 0"
    "2 \<le> unat (addr_bits (eeprom cfg))" "unat (addr_bits (eeprom cfg)) \<le> 13"
  shows "wen d'"
proof -
  define cfgr where "cfgr = cfg\<lparr>eeprom := (eeprom cfg)\<lparr>spi_fd := spif\<rparr>\<rparr>"
  have e: "eeprom cfgr = (eeprom cfg)\<lparr>spi_fd := spif\<rparr>" and a: "action cfgr = action cfg"
    by (simp_all add: cfgr_def)
  have m: "dev_matches (eeprom cfgr) d" using assms(3) by (simp add: e dev_matches_fd)
  have ab: "2 \<le> unat (addr_bits (eeprom cfgr))" "unat (addr_bits (eeprom cfgr)) \<le> 13"
    using assms(5,6) by (simp_all add: e)
  have nf: "\<not> spif < 0"
  proof
    assume "spif < 0"
    then have "eeprom_run sim_io cfg spif file fopen_ok heap d = Some (Inr (Some EXIT_FAILURE, None, d))"
      by (simp add: eeprom_run_def)
    then show False using assms(1) by simp
  qed
  from assms(2) show ?thesis
  proof
    assume w: "action cfg = EEPROM_WRITE"
    have "eeprom_run sim_io cfg spif file fopen_ok heap d
      = (case eeprom_write sim_io cfgr file d of
             None \<Rightarrow> None
           | Some (Inl f) \<Rightarrow> Some (Inl f)
           | Some (Inr (r, s')) \<Rightarrow> Some (Inr (r, None, s')))"
      using nf w by (simp add: eeprom_run_def Let_def cfgr_def)
    then have "eeprom_write sim_io cfgr file d = Some (Inr (None, d'))"
      using assms(1) by (auto split: option.splits sum.splits prod.splits)
    then show ?thesis by (rule eeprom_write_sim_wen[OF _ m assms(4) ab])
  next
    assume w: "action cfg = EEPROM_ERASE"
    have "eeprom_run sim_io cfg spif file fopen_ok heap d
      = (case eeprom_erase sim_io cfgr d of (r, s') \<Rightarrow> Some (Inr (r, None, s')))"
      using nf w by (simp add: eeprom_run_def Let_def cfgr_def)
    then have "d' = snd (eeprom_erase sim_io cfgr d)"
      using assms(1) by (auto split: prod.splits)
    then show ?thesis using eeprom_erase_sim_wen[OF m assms(4) ab] by simp
  qed
qed

lemma profile_custom_2_5_write:
  "profile_of [Opt_b 5, Opt_s 2, Opt_w ''image.bin'']
     = \<lparr>filename = ''image.bin'', spidev = ''/dev/spidev1.0'',
        eeprom = \<lparr>name = ''custom'', spi_fd = 0, size_bytes = 2, addr_bits = 5,
                   flags = EEPROM_ORG, is_x16 = False\<rparr>,
        action = EEPROM_WRITE, burst_read = False\<rparr>"
  by (simp add: profile_of_def main_profile_def main_init_def)

lemma eeprom_write_traced_ex:
  assumes "eeprom_write io cfg (Some buf) s = Some (Inr (None, s'))"
    "length buf = unat (size_bytes (eeprom cfg))" "0 \<le> fst (enable_write io (eeprom cfg) s)"
  shows "\<exists>log. eeprom_write (traced io) cfg (Some buf) (s, []) = Some (Inr (None, (s', log)))"
proof -
  let ?e = "eeprom cfg"
  define ret where "ret = fst (enable_write io ?e s)"
  define s1 where "s1 = snd (enable_write io ?e s)"
  have en: "enable_write io ?e s = (ret, s1)" by (simp add: ret_def s1_def)
  have nn: "\<not> ret < 0" using assms(3) by (simp add: ret_def)
  have "eeprom_write io cfg (Some buf) s
      = (case program_loop io ?e buf 0 s1 of
           None \<Rightarrow> None
         | Some (Inl f) \<Rightarrow> Some (Inl f)
         | Some (Inr (r, sp)) \<Rightarrow> Some (Inr (None, sp)))"
    using assms(2) nn by (simp add: eeprom_write_def en eeprom_program_array_def)
  then obtain rp where pl: "program_loop io ?e buf 0 s1 = Some (Inr (rp, s'))"
    using assms(1) by (auto split: option.splits sum.splits)
  obtain ev where ent: "enable_write (traced io) ?e (s, []) = (ret, (s1, [ev]))"
    by (simp add: enable_write_traced ret_def s1_def)
  obtain log where plt: "program_loop (traced io) ?e buf 0 (s1, [ev]) = Some (Inr (rp, (s', log)))"
    using program_loop_traced_ex[OF pl] by blast
  have "eeprom_write (traced io) cfg (Some buf) (s, []) = Some (Inr (None, (s', log)))"
    using assms(2) nn by (simp add: eeprom_write_def ent eeprom_program_array_def plt)
  then show ?thesis by blast
qed

text \<open>
  C10. No operation sends the write-disable command. For a profile with 2 to 13
  address bits: \<open>diable_write\<close>, called with the profile of the run, puts on the bus
  exactly one message, the command header with opcode 00 and subcode 00 (EWDS);
  whatever the bus answers, the record of a read, write or erase run that returns
  holds no such message; and on the simulated device, where that message would
  switch programming off, a write or erase run that went through (it ends without a
  return value) leaves the device with programming enabled after its last transfer.
\<close>

theorem run_never_disables_write:
  assumes "2 \<le> unat (addr_bits (eeprom cfg))" and "unat (addr_bits (eeprom cfg)) \<le> 13"
  shows
    "(\<exists>ret rx. snd (snd (diable_write (traced io) ((eeprom cfg)\<lparr>spi_fd := spif\<rparr>) (s, [])))
         = [(send_command_msg (eeprom cfg) OPCODE_EWEN SUBCODE_EWDS, ret, rx)])
     \<and> (eeprom_run (traced io) cfg spif img fopen_ok heap (s, []) = Some (Inr (r, outf, (s', log)))
          \<longrightarrow> list_all (\<lambda>ev. fst ev \<noteq> send_command_msg (eeprom cfg) OPCODE_EWEN SUBCODE_EWDS) log)
     \<and> (dev_matches (eeprom cfg) d \<and> busy d = 0 \<longrightarrow>
          \<not> wen (snd (diable_write sim_io (eeprom cfg) d))
          \<and> ((action cfg = EEPROM_WRITE \<or> action cfg = EEPROM_ERASE)
               \<and> eeprom_run sim_io cfg spif img fopen_ok heap d = Some (Inr (None, outd, d'))
              \<longrightarrow> wen d'))"
proof (intro conjI impI)
  show "\<exists>ret rx. snd (snd (diable_write (traced io) ((eeprom cfg)\<lparr>spi_fd := spif\<rparr>) (s, [])))
         = [(send_command_msg (eeprom cfg) OPCODE_EWEN SUBCODE_EWDS, ret, rx)]"
    by (simp add: diable_write_traced send_command_msg_fd)
next
  assume "eeprom_run (traced io) cfg spif img fopen_ok heap (s, []) = Some (Inr (r, outf, (s', log)))"
  then have "\<forall>ev \<in> set log. op_msg (eeprom cfg) (fst ev)" by (rule eeprom_run_traced_msgs)
  then have "\<forall>ev \<in> set log. fst ev \<noteq> send_command_msg (eeprom cfg) OPCODE_EWEN SUBCODE_EWDS"
    using op_msg_not_ewds[OF _ assms] by blast
  then show "list_all (\<lambda>ev. fst ev \<noteq> send_command_msg (eeprom cfg) OPCODE_EWEN SUBCODE_EWDS) log"
    by (simp add: list_all_iff)
next
  assume "dev_matches (eeprom cfg) d \<and> busy d = 0"
  then show "\<not> wen (snd (diable_write sim_io (eeprom cfg) d))"
    using diable_write_sim[OF _ _ assms, of d] by simp
next
  assume a: "dev_matches (eeprom cfg) d \<and> busy d = 0"
    and b: "(action cfg = EEPROM_WRITE \<or> action cfg = EEPROM_ERASE)
               \<and> eeprom_run sim_io cfg spif img fopen_ok heap d = Some (Inr (None, outd, d'))"
  from a have a1: "dev_matches (eeprom cfg) d" and a2: "busy d = 0" by simp_all
  from b have b1: "action cfg = EEPROM_WRITE \<or> action cfg = EEPROM_ERASE"
    and b2: "eeprom_run sim_io cfg spif img fopen_ok heap d = Some (Inr (None, outd, d'))"
    by simp_all
  show "wen d'" by (rule eeprom_run_sim_wen[OF b2 b1 a1 a2 assms])
qed

theorem run_never_disables_write_witness:
  "\<exists>r outf s' log outd d'.
     2 \<le> unat (addr_bits (eeprom (profile_of [Opt_b 5, Opt_s 2, Opt_w ''image.bin''])))
     \<and> unat (addr_bits (eeprom (profile_of [Opt_b 5, Opt_s 2, Opt_w ''image.bin'']))) \<le> 13
     \<and> eeprom_run (traced sim_io) (profile_of [Opt_b 5, Opt_s 2, Opt_w ''image.bin'']) 3
          (Some [1, 2]) True (\<lambda>i. 0) (blank_device False 5 2, []) = Some (Inr (r, outf, (s', log)))
     \<and> list_all (\<lambda>ev. fst ev \<noteq> send_command_msg
          (eeprom (profile_of [Opt_b 5, Opt_s 2, Opt_w ''image.bin''])) OPCODE_EWEN SUBCODE_EWDS) log
     \<and> dev_matches (eeprom (profile_of [Opt_b 5, Opt_s 2, Opt_w ''image.bin''])) (blank_device False 5 2)
     \<and> busy (blank_device False 5 2) = 0
     \<and> \<not> wen (snd (diable_write sim_io (eeprom (profile_of [Opt_b 5, Opt_s 2, Opt_w ''image.bin'']))
                  (blank_device False 5 2)))
     \<and> action (profile_of [Opt_b 5, Opt_s 2, Opt_w ''image.bin'']) = EEPROM_WRITE
     \<and> eeprom_run sim_io (profile_of [Opt_b 5, Opt_s 2, Opt_w ''image.bin'']) 3
          (Some [1, 2]) True (\<lambda>i. 0) (blank_device False 5 2) = Some (Inr (None, outd, d'))
     \<and> wen d'"
proof -
  define C where "C = profile_of [Opt_b 5, Opt_s 2, Opt_w ''image.bin'']"
  define D where "D = blank_device False 5 2"
  define E where "E = (eeprom C)\<lparr>spi_fd := 3\<rparr>"
  define Cr where "Cr = C\<lparr>eeprom := E\<rparr>"
  have c: "C = \<lparr>filename = ''image.bin'', spidev = ''/dev/spidev1.0'',
        eeprom = \<lparr>name = ''custom'', spi_fd = 0, size_bytes = 2, addr_bits = 5,
                   flags = EEPROM_ORG, is_x16 = False\<rparr>,
        action = EEPROM_WRITE, burst_read = False\<rparr>"
    unfolding C_def by (rule profile_custom_2_5_write)
  have ab: "2 \<le> unat (addr_bits (eeprom C))" "unat (addr_bits (eeprom C)) \<le> 13"
    by (simp_all add: c)
  have act: "action C = EEPROM_WRITE" by (simp add: c)
  have m: "dev_matches (eeprom C) D" by (simp add: c D_def dev_matches_def blank_device_def)
  have bz: "busy D = 0" by (simp add: D_def blank_device_def)
  have er: "eeprom Cr = E" by (simp add: Cr_def)
  have actr: "action Cr = EEPROM_WRITE" by (simp add: Cr_def act)
  have mr: "dev_matches (eeprom Cr) D" using m by (simp add: er E_def dev_matches_fd)
  have abr: "2 \<le> unat (addr_bits (eeprom Cr))" "unat (addr_bits (eeprom Cr)) \<le> 13"
    using ab by (simp_all add: er E_def)
  have len: "length [1, 2 :: u8] = unat (size_bytes (eeprom Cr))" by (simp add: er E_def c)
  have dv: "word_step (eeprom Cr) dvd unat (size_bytes (eeprom Cr))"
    by (simp add: er E_def c word_step_def)
  obtain d' where w: "eeprom_write sim_io Cr (Some [1, 2]) D = Some (Inr (None, d'))"
    using eeprom_write_sim[OF mr bz abr len dv] by blast
  have en: "0 \<le> fst (enable_write sim_io (eeprom Cr) D)"
    by (simp add: enable_write_sim[OF mr bz abr])
  obtain log where wt: "eeprom_write (traced sim_io) Cr (Some [1, 2]) (D, []) = Some (Inr (None, (d', log)))"
    using eeprom_write_traced_ex[OF w len en] by blast
  have run: "eeprom_run sim_io C 3 (Some [1, 2]) True (\<lambda>i. 0) D = Some (Inr (None, None, d'))"
    by (simp add: eeprom_run_def Let_def actr w flip: E_def Cr_def)
  have runt: "eeprom_run (traced sim_io) C 3 (Some [1, 2]) True (\<lambda>i. 0) (D, [])
      = Some (Inr (None, None, (d', log)))"
    by (simp add: eeprom_run_def Let_def actr wt flip: E_def Cr_def)
  note t = run_never_disables_write[OF ab, where io=sim_io and spif=3 and img="Some [1, 2]"
      and fopen_ok=True and heap="\<lambda>i. 0" and s=D and r=None and outf=None and s'=d' and log=log
      and d=D and outd=None and d'=d']
  have l: "list_all (\<lambda>ev. fst ev \<noteq> send_command_msg (eeprom C) OPCODE_EWEN SUBCODE_EWDS) log"
    using t runt by blast
  have nw: "\<not> wen (snd (diable_write sim_io (eeprom C) D))"
    using t m bz by blast
  have wn: "wen d'" using t m bz act run by blast
  show ?thesis
    using ab runt l m bz nw act run wn unfolding C_def D_def by blast
qed

end
